theory Spec2Isabelle
  imports Main
begin

section \<open>JavaScript values\<close>

text \<open>
  The values that travel in the JSON bodies of the API: the primitives of JSON, and
  \<open>undefined\<close> for a property that is absent. Numbers are the integers (tab and window
  identifiers of the browser are integers; \<open>NaN\<close> cannot be written in JSON), so that
  strict equality \<open>===\<close> and the \<open>SameValueZero\<close> of \<open>includes\<close> and of \<open>Map\<close>
  keys are both the equality of HOL.
\<close>

datatype jsval = JUndefined | JNull | JBool bool | JNum int | JStr string

fun truthy :: "jsval \<Rightarrow> bool" where
  "truthy JUndefined = False"
| "truthy JNull = False"
| "truthy (JBool b) = b"
| "truthy (JNum n) = (n \<noteq> 0)"
| "truthy (JStr s) = (s \<noteq> [])"

text \<open>\<open>a || b\<close>\<close>

definition js_or :: "jsval \<Rightarrow> jsval \<Rightarrow> jsval" where
  "js_or a b = (if truthy a then a else b)"

text \<open>Decimal digits of a number, for the template strings that build identifiers.\<close>

definition digit :: "nat \<Rightarrow> char" where
  "digit d = (if d = 0 then CHR ''0'' else if d = 1 then CHR ''1'' else if d = 2 then CHR ''2''
     else if d = 3 then CHR ''3'' else if d = 4 then CHR ''4'' else if d = 5 then CHR ''5''
     else if d = 6 then CHR ''6'' else if d = 7 then CHR ''7'' else if d = 8 then CHR ''8''
     else CHR ''9'')"

fun dec :: "nat \<Rightarrow> string" where
  "dec n = (if n < 10 then [digit n] else dec (n div 10) @ [digit (n mod 10)])"

declare dec.simps [simp del]

text \<open>\<open>String(v)\<close>, as a template string \<open>`${v}`\<close> applies it.\<close>

fun toString :: "jsval \<Rightarrow> string" where
  "toString JUndefined = ''undefined''"
| "toString JNull = ''null''"
| "toString (JBool b) = (if b then ''true'' else ''false'')"
| "toString (JNum n) = (if n < 0 then ''-'' @ dec (nat (- n)) else dec (nat n))"
| "toString (JStr s) = s"

text \<open>
  The \<open>data\<close> of a result report: a primitive, or a flat object given by its own
  properties (the first binding of a name is the property's value). Reading a property
  that is absent, or a property of a primitive, gives \<open>undefined\<close>; an object is truthy.
\<close>

datatype jsdata = DPrim jsval | DObj "(string \<times> jsval) list"

fun dtruthy :: "jsdata \<Rightarrow> bool" where
  "dtruthy (DPrim v) = truthy v"
| "dtruthy (DObj ps) = True"

fun field :: "jsdata \<Rightarrow> string \<Rightarrow> jsval" where
  "field (DPrim v) name = JUndefined"
| "field (DObj ps) name = (case map_of ps name of None \<Rightarrow> JUndefined | Some v \<Rightarrow> v)"

text \<open>\<open>Array.prototype.findIndex\<close>: the index of the first element that satisfies the
  predicate; \<open>None\<close> stands for the \<open>-1\<close> of JavaScript.\<close>

fun findIndex :: "('a \<Rightarrow> bool) \<Rightarrow> 'a list \<Rightarrow> nat option" where
  "findIndex P [] = None"
| "findIndex P (x # xs) =
     (if P x then Some 0 else (case findIndex P xs of None \<Rightarrow> None | Some i \<Rightarrow> Some (Suc i)))"

text \<open>\<open>xs.splice(i, 1)\<close>: the array without its element at index \<open>i\<close>.\<close>

definition splice1 :: "nat \<Rightarrow> 'a list \<Rightarrow> 'a list" where
  "splice1 i xs = take i xs @ drop (Suc i) xs"

section \<open>managers/TaskQueue.js\<close>

text \<open>The class holds one array, \<open>queue\<close>; a queue is that array.\<close>

definition addTask :: "'a \<Rightarrow> 'a list \<Rightarrow> 'a list" where
  "addTask t q = q @ [t]"

text \<open>\<open>getNextTask\<close> returns \<open>null\<close> (\<open>None\<close>) on the empty queue, the shifted head
  otherwise; the second component is the queue afterwards.\<close>

definition getNextTask :: "'a list \<Rightarrow> 'a option \<times> 'a list" where
  "getNextTask q = (if length q = 0 then (None, q) else (Some (hd q), tl q))"

definition peekNextTask :: "'a list \<Rightarrow> 'a option" where
  "peekNextTask q = (if length q = 0 then None else Some (hd q))"

definition hasTask :: "('a \<Rightarrow> bool) \<Rightarrow> 'a list \<Rightarrow> bool" where
  "hasTask predicate q = list_ex predicate q"

text \<open>A run of the queue: calls of \<open>addTask\<close> and \<open>getNextTask\<close> in any order. The run
  returns what each \<open>getNextTask\<close> returned, in the order of the calls, and the queue left.\<close>

datatype 'a queueCall = Add 'a | Pull

fun queueRun :: "'a queueCall list \<Rightarrow> 'a list \<Rightarrow> 'a option list \<times> 'a list" where
  "queueRun [] q = ([], q)"
| "queueRun (Add t # cs) q = queueRun cs (addTask t q)"
| "queueRun (Pull # cs) q =
     (case getNextTask q of (r, q') \<Rightarrow> (case queueRun cs q' of (rs, q'') \<Rightarrow> (r # rs, q'')))"

fun added :: "'a queueCall list \<Rightarrow> 'a list" where
  "added [] = []"
| "added (Add t # cs) = t # added cs"
| "added (Pull # cs) = added cs"

text \<open>The tasks among the results of the pulls, without the \<open>null\<close>s.\<close>

fun pulled :: "'a option list \<Rightarrow> 'a list" where
  "pulled [] = []"
| "pulled (None # rs) = pulled rs"
| "pulled (Some t # rs) = t # pulled rs"

section \<open>managers/TabManager.js\<close>

text \<open>Timestamps (\<open>new Date().toISOString()\<close>) are milliseconds since the epoch.\<close>

record trackedTab =
  tab_tabId :: jsval
  tab_windowId :: jsval
  tab_url :: jsval
  tab_openedAt :: nat
  tab_lastUpdated :: nat

record trackedWindow =
  win_windowId :: jsval
  win_tabs :: "jsval list"
  win_openedAt :: nat

text \<open>One element of the array that \<open>/sync-tabs\<close> receives.\<close>

record tabInput =
  in_tabId :: jsval
  in_windowId :: jsval
  in_url :: jsval

text \<open>The document \<open>{openedTabs, openedWindows}\<close> that \<open>saveData\<close> serialises.\<close>

type_synonym snapshot = "trackedTab list \<times> trackedWindow list"

text \<open>
  The manager: its two arrays, its two flags, the calls of \<open>fs.writeFile\<close> that have
  been issued and have not completed yet (each with the document it was given, which
  \<open>JSON.stringify\<close> fixed when the call was made), and the content of the file.
\<close>

record TabManager =
  openedTabs :: "trackedTab list"
  openedWindows :: "trackedWindow list"
  saveInProgress :: bool
  saveQueued :: bool
  writing :: "snapshot list"
  dbFile :: "snapshot option"

text \<open>\<open>saveData\<close> up to its call of \<open>fs.writeFile\<close>; the callback is \<open>writeFileCallback\<close>.\<close>

definition saveData :: "TabManager \<Rightarrow> TabManager" where
  "saveData m = m\<lparr>writing := writing m @ [(openedTabs m, openedWindows m)]\<rparr>"

definition scheduleSave :: "TabManager \<Rightarrow> TabManager" where
  "scheduleSave m =
     (if saveInProgress m then m\<lparr>saveQueued := True\<rparr>
      else saveData (m\<lparr>saveInProgress := True\<rparr>))"

text \<open>
  The completion of the \<open>i\<close>-th write in flight, with or without an error, and the
  callback that \<open>saveData\<close> gave it. A write that fails leaves the file as it was.
  There is no completion of a write that is not in flight.
\<close>

definition writeFileCallback :: "nat \<Rightarrow> bool \<Rightarrow> TabManager \<Rightarrow> TabManager" where
  "writeFileCallback i err m =
     (if i < length (writing m) then
        (let m1 = m\<lparr>writing := splice1 i (writing m),
                     dbFile := (if err then dbFile m else Some (writing m ! i))\<rparr>;
             m2 = m1\<lparr>saveInProgress := False\<rparr>
         in if saveQueued m2 then scheduleSave (m2\<lparr>saveQueued := False\<rparr>) else m2)
      else m)"

text \<open>
  \<open>find\<close> returns the first window with the identifier, and \<open>push\<close> changes that
  object inside the array: the model updates the array at the index of the first match.
  The argument \<open>wnow\<close> is the clock read by \<open>new Date()\<close> when a window is created.
\<close>

definition associateTabWithWindow :: "nat \<Rightarrow> jsval \<Rightarrow> jsval \<Rightarrow> TabManager \<Rightarrow> TabManager" where
  "associateTabWithWindow wnow tabId windowId m =
     (case findIndex (\<lambda>w. win_windowId w = windowId) (openedWindows m) of
        Some i \<Rightarrow>
          (let w = openedWindows m ! i in
           if \<not> List.member (win_tabs w) tabId
           then m\<lparr>openedWindows := (openedWindows m)[i := w\<lparr>win_tabs := win_tabs w @ [tabId]\<rparr>]\<rparr>
           else m)
      | None \<Rightarrow>
          m\<lparr>openedWindows := openedWindows m @
               [\<lparr>win_windowId = windowId, win_tabs = [tabId], win_openedAt = wnow\<rparr>]\<rparr>)"

text \<open>
  A clock gives the value of the \<open>k\<close>-th \<open>new Date()\<close> of one call. \<open>addOrUpdateTab\<close>
  reads it first for \<open>now\<close>, and \<open>associateTabWithWindow\<close> may read it a second time.
\<close>

type_synonym clock = "nat \<Rightarrow> nat"

definition addOrUpdateTab :: "clock \<Rightarrow> jsval \<Rightarrow> jsval \<Rightarrow> jsval \<Rightarrow> TabManager \<Rightarrow> TabManager" where
  "addOrUpdateTab clk tabId windowId url m =
     (let now = clk 0;
          m1 = (case findIndex (\<lambda>t. tab_tabId t = tabId) (openedTabs m) of
                  Some tabIndex \<Rightarrow>
                    m\<lparr>openedTabs := (openedTabs m)[tabIndex :=
                         (openedTabs m ! tabIndex)\<lparr>tab_url := url, tab_windowId := windowId,
                                                    tab_lastUpdated := now\<rparr>]\<rparr>
                | None \<Rightarrow>
                    m\<lparr>openedTabs := openedTabs m @
                         [\<lparr>tab_tabId = tabId, tab_windowId = windowId, tab_url = url,
                           tab_openedAt = now, tab_lastUpdated = now\<rparr>]\<rparr>)
      in scheduleSave (associateTabWithWindow (clk 1) tabId windowId m1))"

definition removeClosedTab :: "jsval \<Rightarrow> TabManager \<Rightarrow> TabManager" where
  "removeClosedTab tabId m =
     (case findIndex (\<lambda>t. tab_tabId t = tabId) (openedTabs m) of
        Some tabIndex \<Rightarrow>
          (let removedTab = openedTabs m ! tabIndex;
               m1 = m\<lparr>openedTabs := splice1 tabIndex (openedTabs m)\<rparr>;
               m2 = (case findIndex (\<lambda>w. win_windowId w = tab_windowId removedTab) (openedWindows m1) of
                       Some i \<Rightarrow>
                         (let w = (openedWindows m1 ! i)\<lparr>win_tabs :=
                                     filter (\<lambda>id. id \<noteq> tabId) (win_tabs (openedWindows m1 ! i))\<rparr>;
                              m' = m1\<lparr>openedWindows := (openedWindows m1)[i := w]\<rparr>
                          in if length (win_tabs w) = 0 then
                               (case findIndex (\<lambda>w. win_windowId w = tab_windowId removedTab)
                                       (openedWindows m') of
                                  Some windowIndex \<Rightarrow>
                                    m'\<lparr>openedWindows := splice1 windowIndex (openedWindows m')\<rparr>
                                | None \<Rightarrow> m')
                             else m')
                     | None \<Rightarrow> m1)
           in scheduleSave m2)
      | None \<Rightarrow> m)"

text \<open>\<open>bulkAddOrUpdateTabs\<close>: the \<open>i\<close>-th call of \<open>addOrUpdateTab\<close> has the clock \<open>clks i\<close>.\<close>

fun bulkAddOrUpdateTabs :: "(nat \<Rightarrow> clock) \<Rightarrow> nat \<Rightarrow> tabInput list \<Rightarrow> TabManager \<Rightarrow> TabManager" where
  "bulkAddOrUpdateTabs clks i [] m = m"
| "bulkAddOrUpdateTabs clks i (t # ts) m =
     bulkAddOrUpdateTabs clks (Suc i) ts
       (addOrUpdateTab (clks i) (in_tabId t) (in_windowId t) (in_url t) m)"

text \<open>One turn of the \<open>forEach\<close> of \<open>replaceAllTabs\<close>, with the clock it reads for \<open>now\<close>.\<close>

definition replaceStep :: "nat \<Rightarrow> tabInput \<Rightarrow> TabManager \<Rightarrow> TabManager" where
  "replaceStep now t m =
     (let m1 = m\<lparr>openedTabs := openedTabs m @
                   [\<lparr>tab_tabId = in_tabId t, tab_windowId = in_windowId t, tab_url = in_url t,
                     tab_openedAt = now, tab_lastUpdated = now\<rparr>]\<rparr>
      in case findIndex (\<lambda>w. win_windowId w = in_windowId t) (openedWindows m1) of
           Some i \<Rightarrow>
             (let w = openedWindows m1 ! i in
              if \<not> List.member (win_tabs w) (in_tabId t)
              then m1\<lparr>openedWindows := (openedWindows m1)[i := w\<lparr>win_tabs := win_tabs w @ [in_tabId t]\<rparr>]\<rparr>
              else m1)
         | None \<Rightarrow>
             m1\<lparr>openedWindows := openedWindows m1 @
                  [\<lparr>win_windowId = in_windowId t, win_tabs = [in_tabId t], win_openedAt = now\<rparr>]\<rparr>)"

fun replaceLoop :: "clock \<Rightarrow> nat \<Rightarrow> tabInput list \<Rightarrow> TabManager \<Rightarrow> TabManager" where
  "replaceLoop clk i [] m = m"
| "replaceLoop clk i (t # ts) m = replaceLoop clk (Suc i) ts (replaceStep (clk i) t m)"

text \<open>\<open>replaceAllTabs\<close>: the \<open>i\<close>-th turn of the loop reads the clock \<open>clk i\<close>.\<close>

definition replaceAllTabs :: "clock \<Rightarrow> tabInput list \<Rightarrow> TabManager \<Rightarrow> TabManager" where
  "replaceAllTabs clk tabs m =
     scheduleSave (replaceLoop clk 0 tabs (m\<lparr>openedTabs := [], openedWindows := []\<rparr>))"

definition getAllOpenedTabs :: "TabManager \<Rightarrow> trackedTab list" where
  "getAllOpenedTabs m = openedTabs m"

text \<open>\<open>clearAll\<close> empties the arrays and calls \<open>saveData\<close> itself, not \<open>scheduleSave\<close>.
  Nothing in the repository calls it.\<close>

definition clearAll :: "TabManager \<Rightarrow> TabManager" where
  "clearAll m = saveData (m\<lparr>openedTabs := [], openedWindows := []\<rparr>)"

section \<open>index.js\<close>

record task =
  taskId :: jsval
  command :: jsval
  tabId :: jsval
  url :: jsval
  jsFunction :: jsval

text \<open>
  The bodies of the responses: \<open>{success: false, error}\<close>, \<open>{success: true}\<close>,
  \<open>{success: true, task, result}\<close>, a task object, \<open>{}\<close>, \<open>{success: true, tabs}\<close>
  and \<open>{success: true, syncedTabs}\<close>. A response is a status and a body.
\<close>

datatype body =
    Failure string
  | Success
  | TaskResult task jsdata
  | TaskObject task
  | EmptyObject
  | Tabs "trackedTab list"
  | SyncedTabs "tabInput list"

datatype response = Resp nat body

text \<open>
  A handler that reaches \<open>await waitForTaskCompletion(..)\<close> does not answer yet: its
  request stays open on the promise, and the answer is sent when the promise settles.
\<close>

datatype reply = Now response | Await nat

text \<open>An entry of \<open>pendingTasks\<close>: the \<open>resolve\<close> and \<open>reject\<close> of one promise (the
  promise's handle) and the handle of the timer.\<close>

record pendingEntry =
  resolver :: nat
  timeout :: nat

text \<open>
  The state of the server. \<open>timers\<close> are the armed timers: the task identifier that
  the callback captured, and the time before which the timer does not fire.
  \<open>awaiting\<close> holds the promises that are not settled, each with the task of the
  request that awaits it; \<open>outbox\<close> holds the answers sent to those requests, in order.
  \<open>now\<close> is the clock in milliseconds.
\<close>

record server =
  taskQueue :: "task list"
  tabManager :: TabManager
  pendingTasks :: "jsval \<rightharpoonup> pendingEntry"
  timers :: "nat \<rightharpoonup> (jsval \<times> nat)"
  awaiting :: "nat \<rightharpoonup> task"
  outbox :: "(nat \<times> response) list"
  nextPromise :: nat
  nextTimer :: nat
  now :: nat

text \<open>Settling a promise runs the rest of the handler that awaits it, once: a promise
  that is settled ignores every later \<open>resolve\<close> and \<open>reject\<close>.\<close>

definition settle :: "nat \<Rightarrow> (task \<Rightarrow> response) \<Rightarrow> server \<Rightarrow> server" where
  "settle p answer s =
     (case awaiting s p of
        None \<Rightarrow> s
      | Some t \<Rightarrow> s\<lparr>awaiting := (awaiting s)(p := None), outbox := outbox s @ [(p, answer t)]\<rparr>)"

text \<open>\<open>resolve(data)\<close>: the handler answers \<open>res.json({success: true, task, result})\<close>.\<close>

definition resolvePromise :: "nat \<Rightarrow> jsdata \<Rightarrow> server \<Rightarrow> server" where
  "resolvePromise p result s = settle p (\<lambda>t. Resp 200 (TaskResult t result)) s"

text \<open>\<open>reject(new Error(msg))\<close>: the handler answers status 500 with the message.\<close>

definition rejectPromise :: "nat \<Rightarrow> string \<Rightarrow> server \<Rightarrow> server" where
  "rejectPromise p msg s = settle p (\<lambda>t. Resp 500 (Failure msg)) s"

definition clearTimeout :: "nat \<Rightarrow> server \<Rightarrow> server" where
  "clearTimeout tm s = s\<lparr>timers := (timers s)(tm := None)\<rparr>"

text \<open>The callback that \<open>waitForTaskCompletion\<close> gives to \<open>setTimeout\<close>.\<close>

definition timeoutCallback :: "jsval \<Rightarrow> server \<Rightarrow> server" where
  "timeoutCallback k s =
     (case pendingTasks s k of
        Some e \<Rightarrow> (rejectPromise (resolver e) ''Task timed out.'' s)
                    \<lparr>pendingTasks := (pendingTasks s)(k := None)\<rparr>
      | None \<Rightarrow> s)"

text \<open>A timer fires once, and not before its delay has passed.\<close>

definition fireTimer :: "nat \<Rightarrow> server \<Rightarrow> server" where
  "fireTimer tm s =
     (case timers s tm of
        Some (k, due) \<Rightarrow>
          (if now s < due then s else timeoutCallback k (s\<lparr>timers := (timers s)(tm := None)\<rparr>))
      | None \<Rightarrow> s)"

text \<open>\<open>waitForTaskCompletion\<close> returns the new promise.\<close>

definition waitForTaskCompletion :: "jsval \<Rightarrow> nat \<Rightarrow> server \<Rightarrow> nat \<times> server" where
  "waitForTaskCompletion k timeoutMs s =
     (nextPromise s,
      s\<lparr>pendingTasks := (pendingTasks s)(k \<mapsto> \<lparr>resolver = nextPromise s, timeout = nextTimer s\<rparr>),
        timers := (timers s)(nextTimer s \<mapsto> (k, now s + timeoutMs)),
        nextPromise := Suc (nextPromise s),
        nextTimer := Suc (nextTimer s)\<rparr>)"

text \<open>\<open>const result = await waitForTaskCompletion(newTaskId)\<close> with the default timeout,
  in a handler whose task is \<open>t\<close>.\<close>

definition awaitTask :: "jsval \<Rightarrow> task \<Rightarrow> server \<Rightarrow> reply \<times> server" where
  "awaitTask newTaskId t s =
     (case waitForTaskCompletion newTaskId 30000 s of
        (p, s') \<Rightarrow> (Await p, s'\<lparr>awaiting := (awaiting s')(p \<mapsto> t)\<rparr>))"

definition validCommands :: "jsval list" where
  "validCommands = [JStr ''open-tab'', JStr ''close-tab'', JStr ''find-tab'', JStr ''execute-js'']"

text \<open>\<open>POST /add-task\<close> with the body \<open>{taskId, command, url, jsFunction, tabId}\<close>.\<close>

definition add_task :: "jsval \<Rightarrow> jsval \<Rightarrow> jsval \<Rightarrow> jsval \<Rightarrow> jsval \<Rightarrow> server \<Rightarrow> reply \<times> server" where
  "add_task reqTaskId reqCommand reqUrl reqJsFunction reqTabId s =
     (if \<not> List.member validCommands reqCommand
      then (Now (Resp 400 (Failure (''Invalid command: '' @ toString reqCommand))), s)
      else
        (let newTaskId = js_or reqTaskId (JStr (''task-'' @ dec (now s)));
             t = \<lparr>taskId = newTaskId, command = reqCommand, tabId = js_or reqTabId JNull,
                  url = js_or reqUrl JNull, jsFunction = js_or reqJsFunction JNull\<rparr>
         in awaitTask newTaskId t (s\<lparr>taskQueue := addTask t (taskQueue s)\<rparr>)))"

text \<open>\<open>GET /get-task\<close>\<close>

definition get_task :: "server \<Rightarrow> response \<times> server" where
  "get_task s =
     (case getNextTask (taskQueue s) of
        (Some nextTask, q) \<Rightarrow> (Resp 200 (TaskObject nextTask), s\<lparr>taskQueue := q\<rparr>)
      | (None, q) \<Rightarrow> (Resp 200 EmptyObject, s\<lparr>taskQueue := q\<rparr>))"

text \<open>\<open>POST /report-result\<close> with the body \<open>{taskId, data}\<close>. The clock does not move
  while the handler runs.\<close>

definition report_result :: "jsval \<Rightarrow> jsdata \<Rightarrow> server \<Rightarrow> response \<times> server" where
  "report_result k d s =
     (let s1 = (if dtruthy d \<and> truthy (field d ''tabId'') \<and> truthy (field d ''windowId'')
                   \<and> truthy (field d ''url'')
                then s\<lparr>tabManager := addOrUpdateTab (\<lambda>i. now s) (field d ''tabId'')
                                       (field d ''windowId'') (field d ''url'') (tabManager s)\<rparr>
                else s);
          s2 = (if dtruthy d \<and> truthy (field d ''closedTabId'')
                then s1\<lparr>tabManager := removeClosedTab (field d ''closedTabId'') (tabManager s1)\<rparr>
                else s1);
          s3 = (case pendingTasks s2 k of
                  Some e \<Rightarrow> (resolvePromise (resolver e) d (clearTimeout (timeout e) s2))
                              \<lparr>pendingTasks := (pendingTasks s2)(k := None)\<rparr>
                | None \<Rightarrow> s2)
      in (Resp 200 Success, s3))"

text \<open>\<open>GET /opened-tabs\<close>\<close>

definition opened_tabs :: "server \<Rightarrow> response \<times> server" where
  "opened_tabs s = (Resp 200 (Tabs (getAllOpenedTabs (tabManager s))), s)"

text \<open>\<open>new Error(msg).message\<close>\<close>

definition errorMessage :: "jsval \<Rightarrow> string" where
  "errorMessage msg = (if msg = JUndefined then [] else toString msg)"

text \<open>\<open>POST /report-result/error\<close> with the body \<open>{taskId, error}\<close>.\<close>

definition report_error :: "jsval \<Rightarrow> jsval \<Rightarrow> server \<Rightarrow> response \<times> server" where
  "report_error k errorMsg s =
     (let s1 = (case pendingTasks s k of
                  Some e \<Rightarrow> (rejectPromise (resolver e) (errorMessage errorMsg)
                               (clearTimeout (timeout e) s))
                              \<lparr>pendingTasks := (pendingTasks s)(k := None)\<rparr>
                | None \<Rightarrow> s)
      in (Resp 200 Success, s1))"

text \<open>\<open>POST /sync-tabs\<close>: \<open>None\<close> is a \<open>tabs\<close> that is not an array.\<close>

definition sync_tabs :: "tabInput list option \<Rightarrow> server \<Rightarrow> response \<times> server" where
  "sync_tabs reqTabs s =
     (case reqTabs of
        None \<Rightarrow> (Resp 400 (Failure ''Invalid tabs format. Expected an array.''), s)
      | Some tabs \<Rightarrow>
          (Resp 200 (SyncedTabs tabs),
           s\<lparr>tabManager := replaceAllTabs (\<lambda>i. now s) tabs (tabManager s)\<rparr>))"

text \<open>\<open>POST /switch-tab\<close> with the body \<open>{tabId}\<close>. The task it builds has no \<open>url\<close> and
  no \<open>jsFunction\<close> property.\<close>

definition switch_tab :: "jsval \<Rightarrow> server \<Rightarrow> reply \<times> server" where
  "switch_tab reqTabId s =
     (case reqTabId of
        JNum n \<Rightarrow>
          (case find (\<lambda>t. command t = JStr ''switch-tab'' \<and> tabId t = reqTabId) (taskQueue s) of
             Some existingTask \<Rightarrow>
               (Now (Resp 409 (Failure (''A switch-tab task for tabId '' @ toString reqTabId
                                        @ '' is already pending.''))), s)
           | None \<Rightarrow>
               (let newTaskId = JStr (''switch-tab-'' @ toString reqTabId @ ''-'' @ dec (now s));
                    t = \<lparr>taskId = newTaskId, command = JStr ''switch-tab'', tabId = reqTabId,
                         url = JUndefined, jsFunction = JUndefined\<rparr>
                in awaitTask newTaskId t (s\<lparr>taskQueue := addTask t (taskQueue s)\<rparr>)))
      | _ \<Rightarrow> (Now (Resp 400 (Failure ''Invalid or missing 'tabId'. It should be a number.'')), s))"

text \<open>\<open>POST /execute-js\<close> with the body \<open>{tabId, jsFunction}\<close>.\<close>

definition execute_js :: "jsval \<Rightarrow> jsval \<Rightarrow> server \<Rightarrow> reply \<times> server" where
  "execute_js reqTabId reqJsFunction s =
     (case reqTabId of
        JNum n \<Rightarrow>
          (case reqJsFunction of
             JStr f \<Rightarrow>
               (let newTaskId = JStr (''execute-js-'' @ toString reqTabId @ ''-'' @ dec (now s));
                    t = \<lparr>taskId = newTaskId, command = JStr ''execute-js'', tabId = reqTabId,
                         url = JUndefined, jsFunction = reqJsFunction\<rparr>
                in awaitTask newTaskId t (s\<lparr>taskQueue := addTask t (taskQueue s)\<rparr>))
           | _ \<Rightarrow> (Now (Resp 400 (Failure ''Invalid or missing 'jsFunction'. It should be a string.'')), s))
      | _ \<Rightarrow> (Now (Resp 400 (Failure ''Invalid or missing 'tabId'. It should be a number.'')), s))"

text \<open>The server when it starts: \<open>new TaskQueue()\<close>, a manager that has loaded the
  arrays of the file (or none), \<open>new Map()\<close>, no timer.\<close>

definition newTabManager :: "snapshot option \<Rightarrow> TabManager" where
  "newTabManager file =
     \<lparr>openedTabs = (case file of None \<Rightarrow> [] | Some (ts, ws) \<Rightarrow> ts),
      openedWindows = (case file of None \<Rightarrow> [] | Some (ts, ws) \<Rightarrow> ws),
      saveInProgress = False, saveQueued = False, writing = [], dbFile = file\<rparr>"

definition newServer :: "snapshot option \<Rightarrow> nat \<Rightarrow> server" where
  "newServer file t0 =
     \<lparr>taskQueue = [], tabManager = newTabManager file, pendingTasks = Map.empty,
      timers = Map.empty, awaiting = Map.empty, outbox = [], nextPromise = 0, nextTimer = 0,
      now = t0\<rparr>"

text \<open>The tab identifiers listed under a window identifier, and a tracked tab seen as
  the input that gives it.\<close>

definition tabsInWindow :: "jsval \<Rightarrow> trackedWindow list \<Rightarrow> jsval list" where
  "tabsInWindow wid ws = concat (map win_tabs (filter (\<lambda>w. win_windowId w = wid) ws))"

definition asInput :: "trackedTab \<Rightarrow> tabInput" where
  "asInput r = \<lparr>in_tabId = tab_tabId r, in_windowId = tab_windowId r, in_url = tab_url r\<rparr>"

text \<open>
  The invariant of the store: every tab identifier listed under a window has a tracked tab
  with that identifier and that window; every tracked tab has a window with its window
  identifier that lists it; no window has an empty list of tabs.
\<close>

definition storeInvariant :: "TabManager \<Rightarrow> bool" where
  "storeInvariant m =
     (list_all (\<lambda>w. list_all (\<lambda>t. list_ex (\<lambda>r. tab_tabId r = t \<and> tab_windowId r = win_windowId w)
                                   (openedTabs m)) (win_tabs w)) (openedWindows m)
      \<and> list_all (\<lambda>r. list_ex (\<lambda>w. win_windowId w = tab_windowId r \<and> List.member (win_tabs w) (tab_tabId r))
                      (openedWindows m)) (openedTabs m)
      \<and> list_all (\<lambda>w. win_tabs w \<noteq> []) (openedWindows m))"

section \<open>Runs of the manager\<close>

text \<open>
  What happens to the manager of the server: a call of one of the mutating methods that
  the server calls or that the specification of the store names, with the clock the call
  reads, or the completion of a write in flight.
\<close>

datatype storeCall =
    AddOrUpdateTab clock jsval jsval jsval
  | RemoveClosedTab jsval
  | ReplaceAllTabs clock "tabInput list"
  | WriteFileDone nat bool

fun storeStep :: "storeCall \<Rightarrow> TabManager \<Rightarrow> TabManager" where
  "storeStep (AddOrUpdateTab clk tid wid u) m = addOrUpdateTab clk tid wid u m"
| "storeStep (RemoveClosedTab tid) m = removeClosedTab tid m"
| "storeStep (ReplaceAllTabs clk tabs) m = replaceAllTabs clk tabs m"
| "storeStep (WriteFileDone i err) m = writeFileCallback i err m"

fun storeRun :: "storeCall list \<Rightarrow> TabManager \<Rightarrow> TabManager" where
  "storeRun [] m = m"
| "storeRun (c # cs) m = storeRun cs (storeStep c m)"

text \<open>The calls that come from outside, and the ones among them that reach
  \<open>scheduleSave()\<close>: \<open>removeClosedTab\<close> of a tab that is not tracked only warns.\<close>

fun isMutation :: "storeCall \<Rightarrow> bool" where
  "isMutation (WriteFileDone i err) = False"
| "isMutation c = True"

fun schedules :: "storeCall \<Rightarrow> TabManager \<Rightarrow> bool" where
  "schedules (AddOrUpdateTab clk tid wid u) m = True"
| "schedules (RemoveClosedTab tid) m =
     (findIndex (\<lambda>t. tab_tabId t = tid) (openedTabs m) \<noteq> None)"
| "schedules (ReplaceAllTabs clk tabs) m = True"
| "schedules (WriteFileDone i err) m = False"

text \<open>Some call of the list reaches \<open>scheduleSave()\<close> when the list runs from \<open>m\<close>.\<close>

fun someScheduled :: "storeCall list \<Rightarrow> TabManager \<Rightarrow> bool" where
  "someScheduled [] m = False"
| "someScheduled (c # cs) m = (schedules c m \<or> someScheduled cs (storeStep c m))"

text \<open>The part of the manager that \<open>scheduleSave\<close> and the callback of the write use.\<close>

definition persistence :: "TabManager \<Rightarrow> bool \<times> bool \<times> snapshot list \<times> snapshot option" where
  "persistence m = (saveInProgress m, saveQueued m, writing m, dbFile m)"

text \<open>At most one write is in flight, \<open>saveInProgress\<close> tells whether one is, and a save
  is queued only behind a write in flight.\<close>

definition singleFlight :: "TabManager \<Rightarrow> bool" where
  "singleFlight m =
     (length (writing m) \<le> 1 \<and> saveInProgress m = (writing m \<noteq> [])
      \<and> (saveQueued m \<longrightarrow> saveInProgress m))"

section \<open>Runs of the server\<close>

text \<open>The requests of the API, with the fields of their bodies.\<close>

datatype request =
    AddTask jsval jsval jsval jsval jsval
  | GetTask
  | ReportResult jsval jsdata
  | OpenedTabs
  | ReportError jsval jsval
  | SyncTabs "tabInput list option"
  | SwitchTab jsval
  | ExecuteJs jsval jsval

text \<open>The state after the handler of a request has run, up to its \<open>await\<close> if it has one.\<close>

fun handleRequest :: "request \<Rightarrow> server \<Rightarrow> server" where
  "handleRequest (AddTask reqTaskId reqCommand reqUrl reqJsFunction reqTabId) s =
     snd (add_task reqTaskId reqCommand reqUrl reqJsFunction reqTabId s)"
| "handleRequest GetTask s = snd (get_task s)"
| "handleRequest (ReportResult k d) s = snd (report_result k d s)"
| "handleRequest OpenedTabs s = snd (opened_tabs s)"
| "handleRequest (ReportError k errorMsg) s = snd (report_error k errorMsg s)"
| "handleRequest (SyncTabs reqTabs) s = snd (sync_tabs reqTabs s)"
| "handleRequest (SwitchTab reqTabId) s = snd (switch_tab reqTabId s)"
| "handleRequest (ExecuteJs reqTabId reqJsFunction) s = snd (execute_js reqTabId reqJsFunction s)"

text \<open>
  What happens to the server: a request arrives, an armed timer is run by the event
  loop, time passes, a write of the snapshot completes.
\<close>

datatype event = Request request | TimerFires nat | Elapse nat | WriteFileCompletes nat bool

fun step :: "event \<Rightarrow> server \<Rightarrow> server" where
  "step (Request r) s = handleRequest r s"
| "step (TimerFires tm) s = fireTimer tm s"
| "step (Elapse d) s = s\<lparr>now := now s + d\<rparr>"
| "step (WriteFileCompletes i err) s = s\<lparr>tabManager := writeFileCallback i err (tabManager s)\<rparr>"

fun run :: "event list \<Rightarrow> server \<Rightarrow> server" where
  "run [] s = s"
| "run (e # es) s = run es (step e s)"

text \<open>
  Handles are allocated in order: the handles in \<open>pendingTasks\<close>, the promises awaited
  and the promises answered are below the next handle; a promise answered is not awaited
  any more, and no promise is answered twice.
\<close>

definition wellFormed :: "server \<Rightarrow> bool" where
  "wellFormed s =
     ((\<forall>k e. pendingTasks s k = Some e \<longrightarrow> resolver e < nextPromise s \<and> timeout e < nextTimer s)
      \<and> (\<forall>p t. awaiting s p = Some t \<longrightarrow> p < nextPromise s)
      \<and> (\<forall>p r. (p, r) \<in> set (outbox s) \<longrightarrow> p < nextPromise s \<and> awaiting s p = None)
      \<and> distinct (map fst (outbox s)))"

text \<open>The identifier under which the handler of a request registers a wait, if it does.\<close>

fun registers :: "request \<Rightarrow> server \<Rightarrow> jsval option" where
  "registers (AddTask reqTaskId reqCommand reqUrl reqJsFunction reqTabId) s =
     (if List.member validCommands reqCommand
      then Some (js_or reqTaskId (JStr (''task-'' @ dec (now s)))) else None)"
| "registers (SwitchTab reqTabId) s =
     (case reqTabId of
        JNum n \<Rightarrow>
          (case find (\<lambda>t. command t = JStr ''switch-tab'' \<and> tabId t = reqTabId) (taskQueue s) of
             Some existingTask \<Rightarrow> None
           | None \<Rightarrow> Some (JStr (''switch-tab-'' @ toString reqTabId @ ''-'' @ dec (now s))))
      | _ \<Rightarrow> None)"
| "registers (ExecuteJs reqTabId reqJsFunction) s =
     (case reqTabId of
        JNum n \<Rightarrow>
          (case reqJsFunction of
             JStr f \<Rightarrow> Some (JStr (''execute-js-'' @ toString reqTabId @ ''-'' @ dec (now s)))
           | _ \<Rightarrow> None)
      | _ \<Rightarrow> None)"
| "registers r s = None"

text \<open>
  The events that touch the wait registered under \<open>k\<close> with the timer \<open>tm\<close>: a report
  of a result or of an error for \<open>k\<close>, a request that registers a wait under \<open>k\<close> again,
  and the firing of \<open>tm\<close> itself.
\<close>

fun disturbs :: "jsval \<Rightarrow> nat \<Rightarrow> event \<Rightarrow> server \<Rightarrow> bool" where
  "disturbs k tm (Request (ReportResult k' d)) s = (k' = k)"
| "disturbs k tm (Request (ReportError k' errorMsg)) s = (k' = k)"
| "disturbs k tm (Request r) s = (registers r s = Some k)"
| "disturbs k tm (TimerFires tm') s = (tm' = tm)"
| "disturbs k tm e s = False"

fun undisturbed :: "jsval \<Rightarrow> nat \<Rightarrow> event list \<Rightarrow> server \<Rightarrow> bool" where
  "undisturbed k tm [] s = True"
| "undisturbed k tm (e # es) s = (\<not> disturbs k tm e s \<and> undisturbed k tm es (step e s))"

text \<open>
  The wait under \<open>k\<close>, with promise \<open>p\<close> and timer \<open>tm\<close> due at \<open>due\<close>, is registered,
  its promise is not settled, its timer is armed, no other entry holds its promise or its
  timer, and no other armed timer has captured \<open>k\<close>.
\<close>

definition waiting :: "jsval \<Rightarrow> nat \<Rightarrow> nat \<Rightarrow> nat \<Rightarrow> server \<Rightarrow> bool" where
  "waiting k p tm due s =
     (pendingTasks s k = Some \<lparr>resolver = p, timeout = tm\<rparr>
      \<and> awaiting s p \<noteq> None
      \<and> timers s tm = Some (k, due)
      \<and> p < nextPromise s \<and> tm < nextTimer s
      \<and> (\<forall>k' e. k' \<noteq> k \<longrightarrow> pendingTasks s k' = Some e \<longrightarrow> resolver e \<noteq> p \<and> timeout e \<noteq> tm)
      \<and> (\<forall>tm' k' d. tm' \<noteq> tm \<longrightarrow> timers s tm' = Some (k', d) \<longrightarrow> k' \<noteq> k))"

text \<open>The invariant, with the tab identifiers and the window identifiers as keys.\<close>

definition storeWellFormed :: "TabManager \<Rightarrow> bool" where
  "storeWellFormed m =
     (storeInvariant m \<and> distinct (map tab_tabId (openedTabs m))
      \<and> distinct (map win_windowId (openedWindows m)))"

section \<open>The task queue is first in, first out\<close>

lemma queueRun_fifo: "pulled (fst (queueRun cs q)) @ snd (queueRun cs q) = q @ added cs"
proof (induction cs arbitrary: q)
  case Nil
  show ?case by simp
next
  case (Cons c cs)
  show ?case
  proof (cases c)
    case (Add t)
    then show ?thesis using Cons.IH [of "addTask t q"] by (simp add: addTask_def)
  next
    case Pull
    show ?thesis
    proof (cases q)
      case Nil
      then show ?thesis using Cons.IH [of "[]"] Pull
        by (auto simp: getNextTask_def split: prod.splits)
    next
      case (Cons x xs)
      then show ?thesis using Cons.IH [of xs] Pull
        by (auto simp: getNextTask_def split: prod.splits)
    qed
  qed
qed

text \<open>
  C4. In every run of \<open>addTask\<close> and \<open>getNextTask\<close> calls on a new queue, the tasks that
  the pulls return, followed by the tasks left in the queue, are the tasks added, in the
  order in which they were added: add A then B, and the first pull returns A, the second
  B. A pull on the empty queue returns \<open>null\<close>, and \<open>GET /get-task\<close> then answers \<open>{}\<close>
  with status 200; on a queue that is not empty it answers the head and removes it.
\<close>

theorem task_queue_fifo:
  "pulled (fst (queueRun cs [])) @ snd (queueRun cs []) = added cs
   \<and> queueRun [Add a, Add b, Pull, Pull] [] = ([Some a, Some b], [])
   \<and> getNextTask ([] :: 'a list) = (None, [])
   \<and> get_task (s\<lparr>taskQueue := []\<rparr>) = (Resp 200 EmptyObject, s\<lparr>taskQueue := []\<rparr>)
   \<and> get_task (s\<lparr>taskQueue := t # q\<rparr>) = (Resp 200 (TaskObject t), s\<lparr>taskQueue := q\<rparr>)"
  using queueRun_fifo [of cs "[]"]
  by (simp add: getNextTask_def addTask_def get_task_def)

section \<open>A second switch-tab for a queued tab\<close>

text \<open>
  C3. When the queue holds a switch-tab task for the tab \<open>n\<close>, \<open>POST /switch-tab\<close> for
  \<open>n\<close> answers status 409 at once and leaves the whole state of the server, the queue in
  particular, as it was.
\<close>

theorem switch_tab_conflict:
  "hasTask (\<lambda>t. command t = JStr ''switch-tab'' \<and> tabId t = JNum n) (taskQueue s) \<Longrightarrow>
   switch_tab (JNum n) s =
     (Now (Resp 409 (Failure (''A switch-tab task for tabId '' @ toString (JNum n)
                               @ '' is already pending.''))), s)"
  by (auto simp: hasTask_def switch_tab_def list_ex_iff find_None_iff split: option.splits)

theorem switch_tab_conflict_witness:
  "hasTask (\<lambda>t. command t = JStr ''switch-tab'' \<and> tabId t = JNum 7)
      (taskQueue (snd (switch_tab (JNum 7) (newServer None 5))))
   \<and> switch_tab (JNum 7) (snd (switch_tab (JNum 7) (newServer None 5))) =
     (Now (Resp 409 (Failure ''A switch-tab task for tabId 7 is already pending.'')),
      snd (switch_tab (JNum 7) (newServer None 5)))
   \<and> length (taskQueue (snd (switch_tab (JNum 7) (newServer None 5)))) = 1"
proof -
  have h: "hasTask (\<lambda>t. command t = JStr ''switch-tab'' \<and> tabId t = JNum 7)
      (taskQueue (snd (switch_tab (JNum 7) (newServer None 5))))"
    by (simp add: hasTask_def switch_tab_def newServer_def awaitTask_def
          waitForTaskCompletion_def addTask_def Let_def)
  have l: "length (taskQueue (snd (switch_tab (JNum 7) (newServer None 5)))) = 1"
    by (simp add: hasTask_def switch_tab_def newServer_def awaitTask_def
          waitForTaskCompletion_def addTask_def Let_def)
  show ?thesis using h l switch_tab_conflict [OF h] by (simp add: dec.simps digit_def)
qed

section \<open>What \<open>/add-task\<close> validates\<close>

text \<open>
  C7, as the specification states it, fails: \<open>POST /add-task\<close> with the command open-tab
  and no \<open>url\<close> is not answered with an error. The task is put in the queue with the
  \<open>url\<close> \<open>null\<close>, and the request waits on a new promise.
\<close>

theorem add_task_open_tab_without_url_counterexample:
  "add_task (JStr ''a'') (JStr ''open-tab'') JUndefined JUndefined JUndefined (newServer None 0)
     = (Await 0,
        (newServer None 0)\<lparr>taskQueue := [\<lparr>taskId = JStr ''a'', command = JStr ''open-tab'',
             tabId = JNull, url = JNull, jsFunction = JNull\<rparr>],
           pendingTasks := [JStr ''a'' \<mapsto> \<lparr>resolver = 0, timeout = 0\<rparr>],
           timers := [0 \<mapsto> (JStr ''a'', 30000)],
           awaiting := [0 \<mapsto> \<lparr>taskId = JStr ''a'', command = JStr ''open-tab'',
             tabId = JNull, url = JNull, jsFunction = JNull\<rparr>],
           nextPromise := 1, nextTimer := 1\<rparr>)"
  by (simp add: add_task_def validCommands_def js_or_def addTask_def awaitTask_def
        waitForTaskCompletion_def newServer_def Let_def)

text \<open>
  C7, amended. For every request of \<open>/add-task\<close> with the command open-tab and no
  \<open>url\<close>, in every state: the request is not rejected, it waits on a new promise; the
  queue grows by exactly the task, whose \<open>url\<close> is \<open>null\<close>; and a wait is registered under
  the task's identifier.
\<close>

theorem add_task_open_tab_without_url:
  "fst (add_task reqTaskId (JStr ''open-tab'') JUndefined reqJsFunction reqTabId s) = Await (nextPromise s)
   \<and> taskQueue (snd (add_task reqTaskId (JStr ''open-tab'') JUndefined reqJsFunction reqTabId s)) =
       taskQueue s @ [\<lparr>taskId = js_or reqTaskId (JStr (''task-'' @ dec (now s))),
                       command = JStr ''open-tab'', tabId = js_or reqTabId JNull, url = JNull,
                       jsFunction = js_or reqJsFunction JNull\<rparr>]
   \<and> pendingTasks (snd (add_task reqTaskId (JStr ''open-tab'') JUndefined reqJsFunction reqTabId s))
        (js_or reqTaskId (JStr (''task-'' @ dec (now s)))) =
       Some \<lparr>resolver = nextPromise s, timeout = nextTimer s\<rparr>"
  by (simp add: add_task_def validCommands_def js_or_def addTask_def awaitTask_def
        waitForTaskCompletion_def Let_def)

text \<open>
  C8, as the specification states it, fails: \<open>POST /add-task\<close> rejects the command
  switch-tab with status 400 and leaves the server as it was.
\<close>

theorem add_task_switch_tab_counterexample:
  "add_task (JStr ''a'') (JStr ''switch-tab'') JUndefined JUndefined (JNum 7) (newServer None 0)
     = (Now (Resp 400 (Failure ''Invalid command: switch-tab'')), newServer None 0)"
  by (simp add: add_task_def validCommands_def)

text \<open>
  C8, amended. \<open>POST /add-task\<close> accepts exactly the four commands of \<open>validCommands\<close>,
  open-tab, close-tab, find-tab and execute-js: with one of them the request passes the
  validation, its task is added at the tail of the queue and the request waits on a new
  promise; with any other command the answer is status 400 with \<open>Invalid command\<close>, and
  the server is left as it was.
\<close>

theorem add_task_commands:
  "fst (add_task reqTaskId reqCommand reqUrl reqJsFunction reqTabId s) =
     (if reqCommand \<in> {JStr ''open-tab'', JStr ''close-tab'', JStr ''find-tab'', JStr ''execute-js''}
      then Await (nextPromise s)
      else Now (Resp 400 (Failure (''Invalid command: '' @ toString reqCommand))))
   \<and> (if reqCommand \<in> {JStr ''open-tab'', JStr ''close-tab'', JStr ''find-tab'', JStr ''execute-js''}
      then taskQueue (snd (add_task reqTaskId reqCommand reqUrl reqJsFunction reqTabId s)) =
             taskQueue s @ [\<lparr>taskId = js_or reqTaskId (JStr (''task-'' @ dec (now s))),
                       command = reqCommand, tabId = js_or reqTabId JNull, url = js_or reqUrl JNull,
                       jsFunction = js_or reqJsFunction JNull\<rparr>]
      else snd (add_task reqTaskId reqCommand reqUrl reqJsFunction reqTabId s) = s)"
  by (simp add: add_task_def validCommands_def addTask_def awaitTask_def
        waitForTaskCompletion_def Let_def)

section \<open>The side effects of a result report\<close>

text \<open>
  C10, as the specification states it, fails: a report whose data has none of \<open>tabId\<close>,
  \<open>windowId\<close> and \<open>url\<close> changes the store when it carries a \<open>closedTabId\<close>. Tab 5 is
  tracked after the first report, and the report \<open>{closedTabId: 5}\<close> removes it.
\<close>

theorem report_result_closed_tab_counterexample:
  "openedTabs (tabManager (snd (report_result (JStr ''auto-open-5-0'')
       (DObj [(''tabId'', JNum 5), (''windowId'', JNum 1), (''url'', JStr ''https://x'')])
       (newServer None 0)))) =
     [\<lparr>tab_tabId = JNum 5, tab_windowId = JNum 1, tab_url = JStr ''https://x'',
       tab_openedAt = 0, tab_lastUpdated = 0\<rparr>]
   \<and> openedTabs (tabManager (snd (report_result (JStr ''auto-close-5-0'')
       (DObj [(''closedTabId'', JNum 5)])
       (snd (report_result (JStr ''auto-open-5-0'')
          (DObj [(''tabId'', JNum 5), (''windowId'', JNum 1), (''url'', JStr ''https://x'')])
          (newServer None 0)))))) = []"
  by (simp add: report_result_def newServer_def newTabManager_def addOrUpdateTab_def
        associateTabWithWindow_def scheduleSave_def saveData_def removeClosedTab_def
        splice1_def Let_def)

text \<open>
  C10, amended. When the data of a result report is missing, or one of its \<open>tabId\<close>,
  \<open>windowId\<close> and \<open>url\<close> is absent or falsy (0, the empty string), no tab is inserted or
  updated: the store is left exactly as it was, unless the data carries a truthy
  \<open>closedTabId\<close>, and then the store changes exactly as \<open>removeClosedTab\<close> of that tab
  changes it. The wait under the task identifier, if there is one, is resolved with the
  data (its request is answered with status 200 and the data as result), and the entry is
  removed.
\<close>

theorem report_result_without_tab_identity:
  "\<not> (dtruthy d \<and> truthy (field d ''tabId'') \<and> truthy (field d ''windowId'')
       \<and> truthy (field d ''url'')) \<Longrightarrow>
   tabManager (snd (report_result k d s)) =
     (if dtruthy d \<and> truthy (field d ''closedTabId'')
      then removeClosedTab (field d ''closedTabId'') (tabManager s) else tabManager s)
   \<and> pendingTasks (snd (report_result k d s)) k = None
   \<and> outbox (snd (report_result k d s)) =
       (case pendingTasks s k of
          None \<Rightarrow> outbox s
        | Some e \<Rightarrow> (case awaiting s (resolver e) of
                      None \<Rightarrow> outbox s
                    | Some t \<Rightarrow> outbox s @ [(resolver e, Resp 200 (TaskResult t d))]))"
  by (auto simp: report_result_def Let_def resolvePromise_def settle_def clearTimeout_def
        split: option.splits)

theorem report_result_without_tab_identity_witness:
  "\<not> (dtruthy (DObj [(''tabId'', JNum 0), (''windowId'', JNum 1), (''url'', JStr ''https://x'')])
       \<and> truthy (field (DObj [(''tabId'', JNum 0), (''windowId'', JNum 1), (''url'', JStr ''https://x'')]) ''tabId'')
       \<and> truthy (field (DObj [(''tabId'', JNum 0), (''windowId'', JNum 1), (''url'', JStr ''https://x'')]) ''windowId'')
       \<and> truthy (field (DObj [(''tabId'', JNum 0), (''windowId'', JNum 1), (''url'', JStr ''https://x'')]) ''url''))
   \<and> tabManager (snd (report_result (JStr ''a'')
        (DObj [(''tabId'', JNum 0), (''windowId'', JNum 1), (''url'', JStr ''https://x'')])
        (snd (add_task (JStr ''a'') (JStr ''open-tab'') (JStr ''https://x'') JUndefined JUndefined
               (newServer None 0))))) = newTabManager None
   \<and> outbox (snd (report_result (JStr ''a'')
        (DObj [(''tabId'', JNum 0), (''windowId'', JNum 1), (''url'', JStr ''https://x'')])
        (snd (add_task (JStr ''a'') (JStr ''open-tab'') (JStr ''https://x'') JUndefined JUndefined
               (newServer None 0))))) =
       [(0, Resp 200 (TaskResult
          \<lparr>taskId = JStr ''a'', command = JStr ''open-tab'', tabId = JNull,
            url = JStr ''https://x'', jsFunction = JNull\<rparr>
          (DObj [(''tabId'', JNum 0), (''windowId'', JNum 1), (''url'', JStr ''https://x'')])))]"
  using report_result_without_tab_identity
    [of "DObj [(''tabId'', JNum 0), (''windowId'', JNum 1), (''url'', JStr ''https://x'')]"
        "JStr ''a''"
        "snd (add_task (JStr ''a'') (JStr ''open-tab'') (JStr ''https://x'') JUndefined JUndefined
               (newServer None 0))"]
  by (simp add: add_task_def validCommands_def js_or_def addTask_def awaitTask_def
        waitForTaskCompletion_def newServer_def Let_def)

section \<open>Full resynchronisation\<close>

lemma findIndex_None_iff: "findIndex P xs = None \<longleftrightarrow> (\<forall>x \<in> set xs. \<not> P x)"
  by (induction xs) (auto split: option.splits)

lemma findIndex_Some: "findIndex P xs = Some i \<Longrightarrow> i < length xs \<and> P (xs ! i)"
  by (induction xs arbitrary: i) (auto split: if_splits option.splits)

lemma findIndex_first: "findIndex P xs = Some i \<Longrightarrow> j < i \<Longrightarrow> \<not> P (xs ! j)"
proof (induction xs arbitrary: i j)
  case Nil
  then show ?case by simp
next
  case (Cons x xs)
  then show ?case by (cases j) (auto split: if_splits option.splits)
qed

lemma tabsInWindow_append:
  "tabsInWindow wid (ws @ vs) = tabsInWindow wid ws @ tabsInWindow wid vs"
  by (simp add: tabsInWindow_def)

lemma tabsInWindow_update:
  "i < length ws \<Longrightarrow> win_windowId w = win_windowId (ws ! i) \<Longrightarrow>
   set (win_tabs w) = set (win_tabs (ws ! i)) \<union> A \<Longrightarrow>
   set (tabsInWindow wid (ws[i := w])) =
     set (tabsInWindow wid ws) \<union> (if win_windowId w = wid then A else {})"
proof (induction ws arbitrary: i)
  case Nil
  then show ?case by simp
next
  case (Cons v ws)
  show ?case
  proof (cases i)
    case 0
    with Cons.prems show ?thesis by (auto simp: tabsInWindow_def)
  next
    case (Suc j)
    with Cons.prems Cons.IH [of j] show ?thesis by (auto simp: tabsInWindow_def)
  qed
qed

lemma replaceStep_openedTabs:
  "openedTabs (replaceStep n t m) = openedTabs m @
     [\<lparr>tab_tabId = in_tabId t, tab_windowId = in_windowId t, tab_url = in_url t,
       tab_openedAt = n, tab_lastUpdated = n\<rparr>]"
  by (simp add: replaceStep_def Let_def split: option.splits)

lemma replaceStep_tabsInWindow:
  "set (tabsInWindow wid (openedWindows (replaceStep n t m))) =
     set (tabsInWindow wid (openedWindows m)) \<union> (if in_windowId t = wid then {in_tabId t} else {})"
proof (cases "findIndex (\<lambda>w. win_windowId w = in_windowId t) (openedWindows m)")
  case None
  then show ?thesis
    by (simp add: replaceStep_def Let_def tabsInWindow_append) (simp add: tabsInWindow_def)
next
  case (Some i)
  from findIndex_Some [OF Some] have i: "i < length (openedWindows m)"
    and w: "win_windowId (openedWindows m ! i) = in_windowId t" by simp_all
  show ?thesis
  proof (cases "List.member (win_tabs (openedWindows m ! i)) (in_tabId t)")
    case True
    have "in_tabId t \<in> set (tabsInWindow (in_windowId t) (openedWindows m))"
      using True w nth_mem [OF i]
      by (auto simp: tabsInWindow_def intro!: exI [of _ "openedWindows m ! i"])
    with True Some show ?thesis by (auto simp: replaceStep_def Let_def)
  next
    case False
    have "set (tabsInWindow wid ((openedWindows m)[i := (openedWindows m ! i)
              \<lparr>win_tabs := win_tabs (openedWindows m ! i) @ [in_tabId t]\<rparr>])) =
          set (tabsInWindow wid (openedWindows m)) \<union>
            (if win_windowId ((openedWindows m ! i)
                 \<lparr>win_tabs := win_tabs (openedWindows m ! i) @ [in_tabId t]\<rparr>) = wid
             then {in_tabId t} else {})"
      by (rule tabsInWindow_update [OF i]) simp_all
    with False Some w show ?thesis by (simp add: replaceStep_def Let_def)
  qed
qed

lemma replaceStep_windowIds:
  "map win_windowId (openedWindows (replaceStep n t m)) =
     (if in_windowId t \<in> win_windowId ` set (openedWindows m)
      then map win_windowId (openedWindows m)
      else map win_windowId (openedWindows m) @ [in_windowId t])"
proof (cases "findIndex (\<lambda>w. win_windowId w = in_windowId t) (openedWindows m)")
  case None
  from None have "in_windowId t \<notin> win_windowId ` set (openedWindows m)"
    by (auto simp: findIndex_None_iff)
  with None show ?thesis by (simp add: replaceStep_def Let_def)
next
  case (Some i)
  from findIndex_Some [OF Some] have i: "i < length (openedWindows m)"
    and w: "win_windowId (openedWindows m ! i) = in_windowId t" by simp_all
  have same: "map win_windowId ((openedWindows m)[i := (openedWindows m ! i)
              \<lparr>win_tabs := win_tabs (openedWindows m ! i) @ [in_tabId t]\<rparr>]) =
        map win_windowId (openedWindows m)"
    using i by (simp add: map_update list_update_same_conv)
  have "in_windowId t \<in> win_windowId ` set (openedWindows m)"
    using w nth_mem [OF i] by (auto simp: image_iff intro!: bexI [of _ "openedWindows m ! i"])
  with Some same show ?thesis by (simp add: replaceStep_def Let_def)
qed

lemma replaceStep_nonempty:
  "list_all (\<lambda>w. win_tabs w \<noteq> []) (openedWindows m) \<Longrightarrow>
   list_all (\<lambda>w. win_tabs w \<noteq> []) (openedWindows (replaceStep n t m))"
  by (auto simp: replaceStep_def Let_def list_all_iff split: option.splits
           dest!: set_update_subset_insert [THEN subsetD])

lemma replaceLoop_openedTabs:
  "map asInput (openedTabs (replaceLoop clk i tabs m)) = map asInput (openedTabs m) @ tabs"
  by (induction tabs arbitrary: i m) (simp_all add: replaceStep_openedTabs asInput_def)

lemma replaceLoop_stamps:
  "map tab_openedAt (openedTabs (replaceLoop clk i tabs m)) =
     map tab_openedAt (openedTabs m) @ map clk [i ..< i + length tabs]"
proof (induction tabs arbitrary: i m)
  case Nil
  show ?case by simp
next
  case (Cons t tabs)
  have "[i ..< i + length (t # tabs)] = i # [Suc i ..< Suc i + length tabs]"
    by (simp add: upt_rec)
  with Cons [of "Suc i"] show ?case by (simp add: replaceStep_openedTabs)
qed

lemma replaceLoop_tabsInWindow:
  "set (tabsInWindow wid (openedWindows (replaceLoop clk i tabs m))) =
     set (tabsInWindow wid (openedWindows m))
       \<union> set (map in_tabId (filter (\<lambda>t. in_windowId t = wid) tabs))"
  by (induction tabs arbitrary: i m) (auto simp: replaceStep_tabsInWindow)

lemma replaceStep_windowIds_set:
  "win_windowId ` set (openedWindows (replaceStep n t m)) =
     insert (in_windowId t) (win_windowId ` set (openedWindows m))"
proof -
  have "set (map win_windowId (openedWindows (replaceStep n t m))) =
     insert (in_windowId t) (win_windowId ` set (openedWindows m))"
    by (simp only: replaceStep_windowIds) auto
  then show ?thesis by simp
qed

lemma replaceLoop_windowIds:
  "win_windowId ` set (openedWindows (replaceLoop clk i tabs m)) =
     win_windowId ` set (openedWindows m) \<union> in_windowId ` set tabs"
  by (induction tabs arbitrary: i m) (simp_all add: replaceStep_windowIds_set)

lemma replaceLoop_distinct:
  "distinct (map win_windowId (openedWindows m)) \<Longrightarrow>
   distinct (map win_windowId (openedWindows (replaceLoop clk i tabs m)))"
  by (induction tabs arbitrary: i m) (simp_all add: replaceStep_windowIds)

lemma replaceLoop_nonempty:
  "list_all (\<lambda>w. win_tabs w \<noteq> []) (openedWindows m) \<Longrightarrow>
   list_all (\<lambda>w. win_tabs w \<noteq> []) (openedWindows (replaceLoop clk i tabs m))"
  by (induction tabs arbitrary: i m) (simp_all add: replaceStep_nonempty)

lemma replaceStep_frame:
  "openedTabs m = openedTabs m' \<Longrightarrow> openedWindows m = openedWindows m' \<Longrightarrow>
   openedTabs (replaceStep n t m) = openedTabs (replaceStep n t m')
   \<and> openedWindows (replaceStep n t m) = openedWindows (replaceStep n t m')"
  by (simp add: replaceStep_def Let_def split: option.splits)

lemma replaceLoop_frame:
  "openedTabs m = openedTabs m' \<Longrightarrow> openedWindows m = openedWindows m' \<Longrightarrow>
   openedTabs (replaceLoop clk i tabs m) = openedTabs (replaceLoop clk i tabs m')
   \<and> openedWindows (replaceLoop clk i tabs m) = openedWindows (replaceLoop clk i tabs m')"
proof (induction tabs arbitrary: i m m')
  case Nil
  then show ?case by simp
next
  case (Cons t tabs)
  from replaceStep_frame [OF Cons.prems, of "clk i" t]
  show ?case using Cons.IH [of "replaceStep (clk i) t m" "replaceStep (clk i) t m'" "Suc i"]
    by simp
qed

lemma scheduleSave_arrays:
  "openedTabs (scheduleSave m) = openedTabs m \<and> openedWindows (scheduleSave m) = openedWindows m"
  by (simp add: scheduleSave_def saveData_def)

lemma replaceAllTabs_frame:
  "openedTabs (replaceAllTabs clk tabs m) = openedTabs (replaceAllTabs clk tabs m')
   \<and> openedWindows (replaceAllTabs clk tabs m) = openedWindows (replaceAllTabs clk tabs m')"
  using replaceLoop_frame [of "m\<lparr>openedTabs := [], openedWindows := []\<rparr>"
      "m'\<lparr>openedTabs := [], openedWindows := []\<rparr>" clk 0 tabs]
  by (simp add: replaceAllTabs_def scheduleSave_arrays)

text \<open>
  C6. After \<open>replaceAllTabs\<close> with the list \<open>tabs\<close>, whatever the manager held before:
  the tracked tabs are the elements of \<open>tabs\<close>, in order, stamped with the clock of their
  turn; the tracked windows are the window identifiers of \<open>tabs\<close>, each once, and the tabs
  listed under a window identifier are the tab identifiers that \<open>tabs\<close> gives for it. The
  two arrays are the same from any two earlier managers, so that a resync with a first
  list followed by a resync with \<open>tabs\<close> leaves what a resync with \<open>tabs\<close> alone leaves.
\<close>

theorem replaceAllTabs_last_write_wins:
  "map asInput (openedTabs (replaceAllTabs clk tabs m)) = tabs
   \<and> map tab_openedAt (openedTabs (replaceAllTabs clk tabs m)) = map clk [0 ..< length tabs]
   \<and> set (map win_windowId (openedWindows (replaceAllTabs clk tabs m))) = set (map in_windowId tabs)
   \<and> distinct (map win_windowId (openedWindows (replaceAllTabs clk tabs m)))
   \<and> set (tabsInWindow wid (openedWindows (replaceAllTabs clk tabs m))) =
       set (map in_tabId (filter (\<lambda>t. in_windowId t = wid) tabs))
   \<and> openedTabs (replaceAllTabs clk tabs m) = openedTabs (replaceAllTabs clk tabs m')
   \<and> openedWindows (replaceAllTabs clk tabs m) = openedWindows (replaceAllTabs clk tabs m')
   \<and> openedTabs (replaceAllTabs clk tabs (replaceAllTabs clk1 tabs1 m)) =
       openedTabs (replaceAllTabs clk tabs m)
   \<and> openedWindows (replaceAllTabs clk tabs (replaceAllTabs clk1 tabs1 m)) =
       openedWindows (replaceAllTabs clk tabs m)"
proof -
  let ?m0 = "m\<lparr>openedTabs := [], openedWindows := []\<rparr>"
  have a: "map asInput (openedTabs (replaceAllTabs clk tabs m)) = tabs"
    using replaceLoop_openedTabs [of clk 0 tabs ?m0]
    by (simp add: replaceAllTabs_def scheduleSave_arrays)
  have b: "map tab_openedAt (openedTabs (replaceAllTabs clk tabs m)) = map clk [0 ..< length tabs]"
    using replaceLoop_stamps [of clk 0 tabs ?m0]
    by (simp add: replaceAllTabs_def scheduleSave_arrays)
  have c: "set (map win_windowId (openedWindows (replaceAllTabs clk tabs m))) = set (map in_windowId tabs)"
    using replaceLoop_windowIds [of clk 0 tabs ?m0]
    by (simp add: replaceAllTabs_def scheduleSave_arrays)
  have d: "distinct (map win_windowId (openedWindows (replaceAllTabs clk tabs m)))"
    using replaceLoop_distinct [of ?m0 clk 0 tabs]
    by (simp add: replaceAllTabs_def scheduleSave_arrays)
  have e: "set (tabsInWindow wid (openedWindows (replaceAllTabs clk tabs m))) =
       set (map in_tabId (filter (\<lambda>t. in_windowId t = wid) tabs))"
    using replaceLoop_tabsInWindow [of wid clk 0 tabs ?m0]
    by (simp add: replaceAllTabs_def scheduleSave_arrays tabsInWindow_def)
  show ?thesis
    using a b c d e replaceAllTabs_frame [of clk tabs m m']
      replaceAllTabs_frame [of clk tabs "replaceAllTabs clk1 tabs1 m" m]
    by simp
qed

text \<open>The example of the specification: resync with tab 1 in window 1, then with tab 2
  in window 2.\<close>

lemma resync_twice_example:
  "openedTabs (replaceAllTabs (\<lambda>i. 20)
       [\<lparr>in_tabId = JNum 2, in_windowId = JNum 2, in_url = JStr ''b''\<rparr>]
       (replaceAllTabs (\<lambda>i. 10)
          [\<lparr>in_tabId = JNum 1, in_windowId = JNum 1, in_url = JStr ''a''\<rparr>]
          (newTabManager None))) =
     [\<lparr>tab_tabId = JNum 2, tab_windowId = JNum 2, tab_url = JStr ''b'',
       tab_openedAt = 20, tab_lastUpdated = 20\<rparr>]
   \<and> openedWindows (replaceAllTabs (\<lambda>i. 20)
       [\<lparr>in_tabId = JNum 2, in_windowId = JNum 2, in_url = JStr ''b''\<rparr>]
       (replaceAllTabs (\<lambda>i. 10)
          [\<lparr>in_tabId = JNum 1, in_windowId = JNum 1, in_url = JStr ''a''\<rparr>]
          (newTabManager None))) =
     [\<lparr>win_windowId = JNum 2, win_tabs = [JNum 2], win_openedAt = 20\<rparr>]"
  by (simp add: replaceAllTabs_def replaceStep_def scheduleSave_def saveData_def
        newTabManager_def Let_def)

section \<open>The invariant of the store and a tab that changes window\<close>

lemma storeInvariant_iff:
  "storeInvariant m \<longleftrightarrow>
     (\<forall>w \<in> set (openedWindows m). \<forall>t \<in> set (win_tabs w).
        \<exists>r \<in> set (openedTabs m). tab_tabId r = t \<and> tab_windowId r = win_windowId w)
     \<and> (\<forall>r \<in> set (openedTabs m). \<exists>w \<in> set (openedWindows m).
          win_windowId w = tab_windowId r \<and> tab_tabId r \<in> set (win_tabs w))
     \<and> (\<forall>w \<in> set (openedWindows m). win_tabs w \<noteq> [])"
  by (simp add: storeInvariant_def list_all_iff list_ex_iff)

lemma storeInvariant_scheduleSave [simp]: "storeInvariant (scheduleSave m) = storeInvariant m"
  by (simp add: storeInvariant_def scheduleSave_def saveData_def)

lemma in_set_update:
  "x \<in> set (xs[i := y]) \<Longrightarrow> x = y \<or> x \<in> set xs"
  by (metis insertE set_update_subset_insert subsetD)

lemma set_update_other:
  "x \<in> set xs \<Longrightarrow> i < length xs \<Longrightarrow> x \<in> set (xs[i := y]) \<or> x = xs ! i"
  by (metis in_set_conv_nth length_list_update nth_list_update_neq)

lemma set_update_self: "i < length xs \<Longrightarrow> y \<in> set (xs[i := y])"
  by (simp add: set_update_memI)

text \<open>Adding the pair of a tab and a window, as \<open>associateTabWithWindow\<close> and the loop
  of \<open>replaceAllTabs\<close> do, once a record of the tab says that window: the invariant may
  fail before the call for the records of that pair only.\<close>

lemma associate_invariant:
  assumes c1: "\<forall>v \<in> set (openedWindows m). \<forall>x \<in> set (win_tabs v).
        \<exists>r \<in> set (openedTabs m). tab_tabId r = x \<and> tab_windowId r = win_windowId v"
    and c2: "\<forall>r \<in> set (openedTabs m). (tab_tabId r = t \<and> tab_windowId r = w) \<or>
        (\<exists>v \<in> set (openedWindows m). win_windowId v = tab_windowId r \<and> tab_tabId r \<in> set (win_tabs v))"
    and c3: "\<forall>v \<in> set (openedWindows m). win_tabs v \<noteq> []"
    and rec: "\<exists>r \<in> set (openedTabs m). tab_tabId r = t \<and> tab_windowId r = w"
  shows "storeInvariant (associateTabWithWindow n t w m)"
proof (cases "findIndex (\<lambda>v. win_windowId v = w) (openedWindows m)")
  case None
  have "\<forall>r \<in> set (openedTabs m).
      (\<exists>v \<in> set (openedWindows m). win_windowId v = tab_windowId r \<and> tab_tabId r \<in> set (win_tabs v))
      \<or> (w = tab_windowId r \<and> tab_tabId r = t)"
    using c2 by auto
  with None c1 c3 rec show ?thesis
    by (auto simp: associateTabWithWindow_def storeInvariant_iff)
next
  case (Some i)
  from findIndex_Some [OF Some] have i: "i < length (openedWindows m)"
    and wi: "win_windowId (openedWindows m ! i) = w" by simp_all
  have old: "openedWindows m ! i \<in> set (openedWindows m)" using i by simp
  let ?v = "(openedWindows m ! i)\<lparr>win_tabs := win_tabs (openedWindows m ! i) @ [t]\<rparr>"
  show ?thesis
  proof (cases "List.member (win_tabs (openedWindows m ! i)) t")
    case True
    have "\<forall>r \<in> set (openedTabs m). \<exists>v \<in> set (openedWindows m).
        win_windowId v = tab_windowId r \<and> tab_tabId r \<in> set (win_tabs v)"
    proof
      fix r assume "r \<in> set (openedTabs m)"
      with c2 have "(tab_tabId r = t \<and> tab_windowId r = w) \<or>
        (\<exists>v \<in> set (openedWindows m). win_windowId v = tab_windowId r \<and> tab_tabId r \<in> set (win_tabs v))"
        by blast
      then show "\<exists>v \<in> set (openedWindows m).
          win_windowId v = tab_windowId r \<and> tab_tabId r \<in> set (win_tabs v)"
      proof
        assume "tab_tabId r = t \<and> tab_windowId r = w"
        with True wi old show ?thesis by (intro bexI [of _ "openedWindows m ! i"]) auto
      qed
    qed
    with True Some c1 c3 show ?thesis
      by (simp add: associateTabWithWindow_def Let_def storeInvariant_iff)
  next
    case False
    have a: "\<forall>v \<in> set ((openedWindows m)[i := ?v]). \<forall>x \<in> set (win_tabs v).
        \<exists>r \<in> set (openedTabs m). tab_tabId r = x \<and> tab_windowId r = win_windowId v"
    proof (intro ballI)
      fix v x assume v: "v \<in> set ((openedWindows m)[i := ?v])" and x: "x \<in> set (win_tabs v)"
      from in_set_update [OF v] show "\<exists>r \<in> set (openedTabs m). tab_tabId r = x \<and> tab_windowId r = win_windowId v"
      proof
        assume "v = ?v"
        with x wi rec c1 old show ?thesis by auto
      next
        assume "v \<in> set (openedWindows m)"
        with x c1 show ?thesis by auto
      qed
    qed
    have b: "\<forall>r \<in> set (openedTabs m). \<exists>v \<in> set ((openedWindows m)[i := ?v]).
          win_windowId v = tab_windowId r \<and> tab_tabId r \<in> set (win_tabs v)"
    proof
      fix r assume r: "r \<in> set (openedTabs m)"
      with c2 have "(tab_tabId r = t \<and> tab_windowId r = w) \<or>
        (\<exists>v \<in> set (openedWindows m). win_windowId v = tab_windowId r \<and> tab_tabId r \<in> set (win_tabs v))"
        by blast
      then show "\<exists>v \<in> set ((openedWindows m)[i := ?v]).
          win_windowId v = tab_windowId r \<and> tab_tabId r \<in> set (win_tabs v)"
      proof
        assume "tab_tabId r = t \<and> tab_windowId r = w"
        with wi set_update_self [OF i, of ?v] show ?thesis
          by (intro bexI [of _ ?v]) auto
      next
        assume "\<exists>v \<in> set (openedWindows m). win_windowId v = tab_windowId r \<and> tab_tabId r \<in> set (win_tabs v)"
        then obtain v where v: "v \<in> set (openedWindows m)" "win_windowId v = tab_windowId r"
          "tab_tabId r \<in> set (win_tabs v)" by auto
        from set_update_other [OF v(1) i, of ?v] show ?thesis
        proof
          assume "v \<in> set ((openedWindows m)[i := ?v])"
          with v show ?thesis by auto
        next
          assume "v = openedWindows m ! i"
          with v set_update_self [OF i, of ?v] show ?thesis
            by (intro bexI [of _ ?v]) auto
        qed
      qed
    qed
    have c: "\<forall>v \<in> set ((openedWindows m)[i := ?v]). win_tabs v \<noteq> []"
    proof
      fix v assume "v \<in> set ((openedWindows m)[i := ?v])"
      from in_set_update [OF this] c3 show "win_tabs v \<noteq> []" by auto
    qed
    from a b c False Some show ?thesis
      by (simp add: associateTabWithWindow_def Let_def storeInvariant_iff)
  qed
qed

lemma associate_windowIds:
  "map win_windowId (openedWindows (associateTabWithWindow n t w m)) =
     (if w \<in> win_windowId ` set (openedWindows m)
      then map win_windowId (openedWindows m)
      else map win_windowId (openedWindows m) @ [w])"
proof (cases "findIndex (\<lambda>v. win_windowId v = w) (openedWindows m)")
  case None
  from None have "w \<notin> win_windowId ` set (openedWindows m)"
    by (auto simp: findIndex_None_iff)
  with None show ?thesis by (simp add: associateTabWithWindow_def)
next
  case (Some i)
  from findIndex_Some [OF Some] have i: "i < length (openedWindows m)"
    and wi: "win_windowId (openedWindows m ! i) = w" by simp_all
  have same: "map win_windowId ((openedWindows m)[i := (openedWindows m ! i)
              \<lparr>win_tabs := win_tabs (openedWindows m ! i) @ [t]\<rparr>]) =
        map win_windowId (openedWindows m)"
    using i by (simp add: map_update list_update_same_conv)
  have "w \<in> win_windowId ` set (openedWindows m)"
    using wi nth_mem [OF i] by (auto simp: image_iff intro!: bexI [of _ "openedWindows m ! i"])
  with Some same show ?thesis by (simp add: associateTabWithWindow_def Let_def)
qed

lemma associate_openedTabs [simp]:
  "openedTabs (associateTabWithWindow n t w m) = openedTabs m"
  by (simp add: associateTabWithWindow_def Let_def split: option.splits)

text \<open>\<open>addOrUpdateTab\<close> keeps the invariant when the tab is new, or is tracked in the
  window it is reported in.\<close>

lemma addOrUpdateTab_preserves:
  assumes wf: "storeWellFormed m"
    and same: "\<forall>r \<in> set (openedTabs m). tab_tabId r = t \<longrightarrow> tab_windowId r = w"
  shows "storeWellFormed (addOrUpdateTab clk t w u m)"
proof -
  from wf have inv: "storeInvariant m" and dt: "distinct (map tab_tabId (openedTabs m))"
    and dw: "distinct (map win_windowId (openedWindows m))" by (simp_all add: storeWellFormed_def)
  let ?new = "\<lparr>tab_tabId = t, tab_windowId = w, tab_url = u,
                tab_openedAt = clk 0, tab_lastUpdated = clk 0\<rparr>"
  define m1 where "m1 = (case findIndex (\<lambda>r. tab_tabId r = t) (openedTabs m) of
      Some tabIndex \<Rightarrow>
        m\<lparr>openedTabs := (openedTabs m)[tabIndex :=
             (openedTabs m ! tabIndex)\<lparr>tab_url := u, tab_windowId := w, tab_lastUpdated := clk 0\<rparr>]\<rparr>
    | None \<Rightarrow> m\<lparr>openedTabs := openedTabs m @ [?new]\<rparr>)"
  have res: "addOrUpdateTab clk t w u m = scheduleSave (associateTabWithWindow (clk 1) t w m1)"
    by (simp add: addOrUpdateTab_def m1_def Let_def)
  have w1: "openedWindows m1 = openedWindows m" by (simp add: m1_def split: option.splits)
  have ids: "map (\<lambda>r. (tab_tabId r, tab_windowId r)) (openedTabs m1) =
      (case findIndex (\<lambda>r. tab_tabId r = t) (openedTabs m) of
         Some i \<Rightarrow> map (\<lambda>r. (tab_tabId r, tab_windowId r)) (openedTabs m)
       | None \<Rightarrow> map (\<lambda>r. (tab_tabId r, tab_windowId r)) (openedTabs m) @ [(t, w)])"
  proof (cases "findIndex (\<lambda>r. tab_tabId r = t) (openedTabs m)")
    case None
    then show ?thesis by (simp add: m1_def)
  next
    case (Some i)
    from findIndex_Some [OF Some] have i: "i < length (openedTabs m)"
      and ti: "tab_tabId (openedTabs m ! i) = t" by simp_all
    with same have "tab_windowId (openedTabs m ! i) = w" using nth_mem [OF i] by blast
    with Some i ti show ?thesis by (simp add: m1_def map_update list_update_same_conv)
  qed
  have pairs: "(\<lambda>r. (tab_tabId r, tab_windowId r)) ` set (openedTabs m1) =
      insert (t, w) ((\<lambda>r. (tab_tabId r, tab_windowId r)) ` set (openedTabs m))
    \<or> ((\<lambda>r. (tab_tabId r, tab_windowId r)) ` set (openedTabs m1) =
        (\<lambda>r. (tab_tabId r, tab_windowId r)) ` set (openedTabs m)
       \<and> (t, w) \<in> (\<lambda>r. (tab_tabId r, tab_windowId r)) ` set (openedTabs m))"
  proof (cases "findIndex (\<lambda>r. tab_tabId r = t) (openedTabs m)")
    case None
    have "set (map (\<lambda>r. (tab_tabId r, tab_windowId r)) (openedTabs m1)) =
      insert (t, w) (set (map (\<lambda>r. (tab_tabId r, tab_windowId r)) (openedTabs m)))"
      by (simp only: ids None option.case) simp
    then show ?thesis by simp
  next
    case (Some i)
    from findIndex_Some [OF Some] have i: "i < length (openedTabs m)"
      and ti: "tab_tabId (openedTabs m ! i) = t" by simp_all
    with same have wi: "tab_windowId (openedTabs m ! i) = w" using nth_mem [OF i] by blast
    have "set (map (\<lambda>r. (tab_tabId r, tab_windowId r)) (openedTabs m1)) =
      set (map (\<lambda>r. (tab_tabId r, tab_windowId r)) (openedTabs m))"
      by (simp only: ids Some option.case)
    moreover have "(t, w) \<in> (\<lambda>r. (tab_tabId r, tab_windowId r)) ` set (openedTabs m)"
      using ti wi nth_mem [OF i] by (auto simp: image_iff intro!: bexI [of _ "openedTabs m ! i"])
    ultimately show ?thesis by simp
  qed
  have pair_iff: "\<And>x v. (\<exists>r \<in> set (openedTabs m1). tab_tabId r = x \<and> tab_windowId r = v) \<longleftrightarrow>
      (x, v) \<in> (\<lambda>r. (tab_tabId r, tab_windowId r)) ` set (openedTabs m1)"
    by (auto simp: image_iff)
  have pair_iff0: "\<And>x v. (\<exists>r \<in> set (openedTabs m). tab_tabId r = x \<and> tab_windowId r = v) \<longleftrightarrow>
      (x, v) \<in> (\<lambda>r. (tab_tabId r, tab_windowId r)) ` set (openedTabs m)"
    by (auto simp: image_iff)
  have c1: "\<forall>v \<in> set (openedWindows m1). \<forall>x \<in> set (win_tabs v).
        \<exists>r \<in> set (openedTabs m1). tab_tabId r = x \<and> tab_windowId r = win_windowId v"
    using inv pairs unfolding pair_iff w1 storeInvariant_iff pair_iff0 by auto
  have c2: "\<forall>r \<in> set (openedTabs m1). (tab_tabId r = t \<and> tab_windowId r = w) \<or>
        (\<exists>v \<in> set (openedWindows m1). win_windowId v = tab_windowId r \<and> tab_tabId r \<in> set (win_tabs v))"
  proof
    fix r assume r: "r \<in> set (openedTabs m1)"
    then have "(tab_tabId r, tab_windowId r) \<in> (\<lambda>r. (tab_tabId r, tab_windowId r)) ` set (openedTabs m1)"
      by (rule imageI)
    with pairs have "(tab_tabId r, tab_windowId r) = (t, w) \<or>
        (tab_tabId r, tab_windowId r) \<in> (\<lambda>r. (tab_tabId r, tab_windowId r)) ` set (openedTabs m)"
      by auto
    then show "(tab_tabId r = t \<and> tab_windowId r = w) \<or>
        (\<exists>v \<in> set (openedWindows m1). win_windowId v = tab_windowId r \<and> tab_tabId r \<in> set (win_tabs v))"
    proof
      assume "(tab_tabId r, tab_windowId r) = (t, w)"
      then show ?thesis by simp
    next
      assume "(tab_tabId r, tab_windowId r) \<in> (\<lambda>r. (tab_tabId r, tab_windowId r)) ` set (openedTabs m)"
      then obtain r0 where "r0 \<in> set (openedTabs m)" "tab_tabId r0 = tab_tabId r"
        "tab_windowId r0 = tab_windowId r" by (auto simp: image_iff)
      with inv show ?thesis unfolding w1 storeInvariant_iff by metis
    qed
  qed
  have c3: "\<forall>v \<in> set (openedWindows m1). win_tabs v \<noteq> []"
    using inv unfolding w1 storeInvariant_iff by simp
  have rec: "\<exists>r \<in> set (openedTabs m1). tab_tabId r = t \<and> tab_windowId r = w"
    using pairs unfolding pair_iff by auto
  have i1: "storeInvariant (associateTabWithWindow (clk 1) t w m1)"
    by (rule associate_invariant [OF c1 c2 c3 rec])
  have d1: "distinct (map tab_tabId (openedTabs m1))"
  proof (cases "findIndex (\<lambda>r. tab_tabId r = t) (openedTabs m)")
    case None
    then have "t \<notin> tab_tabId ` set (openedTabs m)" by (auto simp: findIndex_None_iff)
    with None dt show ?thesis by (simp add: m1_def)
  next
    case (Some i)
    from findIndex_Some [OF Some] have i: "i < length (openedTabs m)"
      and ti: "tab_tabId (openedTabs m ! i) = t" by simp_all
    have "(map tab_tabId (openedTabs m))[i := tab_tabId (openedTabs m ! i)] =
        map tab_tabId (openedTabs m)"
      using i by (simp add: list_update_same_conv)
    with Some dt show ?thesis by (simp add: m1_def map_update)
  qed
  have d2: "distinct (map win_windowId (openedWindows (associateTabWithWindow (clk 1) t w m1)))"
    using dw by (simp add: associate_windowIds w1)
  from i1 d1 d2 show ?thesis
    by (simp add: res storeWellFormed_def scheduleSave_arrays)
qed


lemma replaceStep_associate:
  "replaceStep n t m =
     associateTabWithWindow n (in_tabId t) (in_windowId t)
       (m\<lparr>openedTabs := openedTabs m @
            [\<lparr>tab_tabId = in_tabId t, tab_windowId = in_windowId t, tab_url = in_url t,
              tab_openedAt = n, tab_lastUpdated = n\<rparr>]\<rparr>)"
  by (simp add: replaceStep_def associateTabWithWindow_def Let_def)

lemma replaceStep_invariant: "storeInvariant m \<Longrightarrow> storeInvariant (replaceStep n t m)"
  unfolding replaceStep_associate
  by (rule associate_invariant) (auto simp: storeInvariant_iff)

lemma replaceLoop_invariant:
  "storeInvariant m \<Longrightarrow> storeInvariant (replaceLoop clk i tabs m)"
  by (induction tabs arbitrary: i m) (simp_all add: replaceStep_invariant)

text \<open>\<open>replaceAllTabs\<close> establishes the invariant, from any manager and for any list.\<close>

lemma replaceAllTabs_invariant: "storeInvariant (replaceAllTabs clk tabs m)"
proof -
  have "storeInvariant (m\<lparr>openedTabs := [], openedWindows := []\<rparr>)"
    by (simp add: storeInvariant_def)
  from replaceLoop_invariant [OF this] show ?thesis by (simp add: replaceAllTabs_def)
qed

lemma replaceAllTabs_wellFormed:
  assumes "distinct (map in_tabId tabs)"
  shows "storeWellFormed (replaceAllTabs clk tabs m)"
proof -
  have "map in_tabId (map asInput (openedTabs (replaceAllTabs clk tabs m))) = map in_tabId tabs"
    using replaceLoop_openedTabs [of clk 0 tabs "m\<lparr>openedTabs := [], openedWindows := []\<rparr>"]
    by (simp add: replaceAllTabs_def scheduleSave_arrays)
  then have t: "map tab_tabId (openedTabs (replaceAllTabs clk tabs m)) = map in_tabId tabs"
    by (simp add: asInput_def comp_def)
  have w: "distinct (map win_windowId (openedWindows (replaceAllTabs clk tabs m)))"
    using replaceLoop_distinct [of "m\<lparr>openedTabs := [], openedWindows := []\<rparr>" clk 0 tabs]
    by (simp add: replaceAllTabs_def scheduleSave_arrays)
  from assms t w replaceAllTabs_invariant [of clk tabs m] show ?thesis
    by (simp add: storeWellFormed_def)
qed

lemma set_splice1:
  "distinct xs \<Longrightarrow> i < length xs \<Longrightarrow> set (splice1 i xs) = set xs - {xs ! i}"
proof -
  assume d: "distinct xs" and i: "i < length xs"
  from id_take_nth_drop [OF i] have xs: "xs = take i xs @ xs ! i # drop (Suc i) xs" .
  with d have "distinct (take i xs @ xs ! i # drop (Suc i) xs)" by simp
  then have "xs ! i \<notin> set (take i xs)" "xs ! i \<notin> set (drop (Suc i) xs)" by auto
  moreover have "set xs = set (take i xs) \<union> {xs ! i} \<union> set (drop (Suc i) xs)"
    by (subst xs) auto
  ultimately show ?thesis by (auto simp: splice1_def)
qed

lemma map_splice1: "map f (splice1 i xs) = splice1 i (map f xs)"
  by (simp add: splice1_def take_map drop_map)

lemma distinct_splice1: "distinct xs \<Longrightarrow> distinct (splice1 i xs)"
proof -
  assume d: "distinct xs"
  have "distinct (take i xs @ drop i xs)" using d by simp
  then have "set (take i xs) \<inter> set (drop i xs) = {}" by (simp only: distinct_append)
  moreover have "set (drop (Suc i) xs) \<subseteq> set (drop i xs)"
    by (rule set_drop_subset_set_drop) simp
  ultimately show ?thesis using d by (auto simp: splice1_def)
qed


lemma splice1_update: "splice1 j (xs[j := y]) = splice1 j xs"
  by (simp add: splice1_def)

lemma distinct_map_eq:
  "distinct (map f xs) \<Longrightarrow> x \<in> set xs \<Longrightarrow> y \<in> set xs \<Longrightarrow> f x = f y \<Longrightarrow> x = y"
  by (auto simp: distinct_map dest: inj_onD)

lemma findIndex_distinct:
  assumes d: "distinct (map f xs)" and j: "j < length xs" and a: "f (xs ! j) = a"
  shows "findIndex (\<lambda>x. f x = a) xs = Some j"
proof (cases "findIndex (\<lambda>x. f x = a) xs")
  case None
  with j a nth_mem [OF j] show ?thesis by (auto simp: findIndex_None_iff)
next
  case (Some i)
  from findIndex_Some [OF Some] have i: "i < length xs" "f (xs ! i) = a" by simp_all
  with j a have e: "map f xs ! i = map f xs ! j" by simp
  have "i < length (map f xs)" "j < length (map f xs)" using i j by simp_all
  from nth_eq_iff_index_eq [OF d this] e have "i = j" by blast
  with Some show ?thesis by simp
qed

text \<open>\<open>removeClosedTab\<close> keeps the invariant, given that tab identifiers and window
  identifiers are keys.\<close>

lemma removeClosedTab_preserves:
  assumes wf: "storeWellFormed m"
  shows "storeWellFormed (removeClosedTab t m)"
proof (cases "findIndex (\<lambda>r. tab_tabId r = t) (openedTabs m)")
  case None
  with wf show ?thesis by (simp add: removeClosedTab_def)
next
  case (Some i)
  from wf have inv: "storeInvariant m" and dt: "distinct (map tab_tabId (openedTabs m))"
    and dw: "distinct (map win_windowId (openedWindows m))" by (simp_all add: storeWellFormed_def)
  from dt have dts: "distinct (openedTabs m)" by (simp add: distinct_map)
  from dw have dws: "distinct (openedWindows m)" by (simp add: distinct_map)
  from findIndex_Some [OF Some] have i: "i < length (openedTabs m)"
    and ti: "tab_tabId (openedTabs m ! i) = t" by simp_all
  define r where "r = openedTabs m ! i"
  have rT: "r \<in> set (openedTabs m)" using i by (simp add: r_def)
  have rt: "tab_tabId r = t" using ti by (simp add: r_def)
  have runique: "\<And>r'. r' \<in> set (openedTabs m) \<Longrightarrow> tab_tabId r' = t \<Longrightarrow> r' = r"
    using distinct_map_eq [OF dt _ rT] rt by simp
  from inv rT obtain v0 where v0: "v0 \<in> set (openedWindows m)" "win_windowId v0 = tab_windowId r"
    "tab_tabId r \<in> set (win_tabs v0)" unfolding storeInvariant_iff by blast
  from v0(1) obtain j where j: "j < length (openedWindows m)" "openedWindows m ! j = v0"
    by (auto simp: in_set_conv_nth)
  have fj: "findIndex (\<lambda>w. win_windowId w = tab_windowId r) (openedWindows m) = Some j"
    using findIndex_distinct [OF dw j(1)] j(2) v0(2) by simp
  have wunique: "\<And>v. v \<in> set (openedWindows m) \<Longrightarrow> win_windowId v = tab_windowId r \<Longrightarrow> v = v0"
    using distinct_map_eq [OF dw _ v0(1)] v0(2) by simp
  define w' where "w' = v0\<lparr>win_tabs := filter (\<lambda>id. id \<noteq> t) (win_tabs v0)\<rparr>"
  define ws' where "ws' = (openedWindows m)[j := w']"
  have ids': "map win_windowId ws' = map win_windowId (openedWindows m)"
    using j by (auto simp: ws'_def w'_def map_update list_update_same_conv)
  have fj': "findIndex (\<lambda>w. win_windowId w = tab_windowId r) ws' = Some j"
  proof (rule findIndex_distinct)
    show "distinct (map win_windowId ws')" using dw by (simp only: ids')
    show "j < length ws'" using j by (simp add: ws'_def)
    show "win_windowId (ws' ! j) = tab_windowId r" using j v0(2) by (simp add: ws'_def w'_def)
  qed
  have tabs': "set (splice1 i (openedTabs m)) = set (openedTabs m) - {r}"
    using set_splice1 [OF dts i] by (simp add: r_def)
  have wsplice: "set (splice1 j (openedWindows m)) = set (openedWindows m) - {v0}"
    using set_splice1 [OF dws j(1)] j(2) by simp
  have wupd: "set ws' = insert w' (set (openedWindows m) - {v0})"
    using set_update_distinct [OF dws j(1), of w'] j(2) by (simp add: ws'_def)
  define ws'' where "ws'' = (if length (win_tabs w') = 0 then splice1 j ws' else ws')"
  have res: "removeClosedTab t m =
      scheduleSave (m\<lparr>openedTabs := splice1 i (openedTabs m), openedWindows := ws''\<rparr>)"
    using Some fj fj' j(2)
    by (simp add: removeClosedTab_def Let_def r_def [symmetric] ws'_def [symmetric]
          w'_def [symmetric] ws''_def)
  have wset: "set ws'' = (if win_tabs w' = [] then set (openedWindows m) - {v0}
                          else insert w' (set (openedWindows m) - {v0}))"
    by (simp add: ws''_def ws'_def splice1_update wsplice wupd [unfolded ws'_def])
  have w'id: "win_windowId w' = tab_windowId r" using v0(2) by (simp add: w'_def)
  have w'tabs: "set (win_tabs w') = set (win_tabs v0) - {t}" by (auto simp: w'_def)
  have c1: "\<forall>v \<in> set ws''. \<forall>x \<in> set (win_tabs v).
      \<exists>r' \<in> set (openedTabs m) - {r}. tab_tabId r' = x \<and> tab_windowId r' = win_windowId v"
  proof (intro ballI)
    fix v x assume v: "v \<in> set ws''" and x: "x \<in> set (win_tabs v)"
    from v wset have "v = w' \<or> (v \<in> set (openedWindows m) \<and> v \<noteq> v0)"
      by (auto split: if_splits)
    then show "\<exists>r' \<in> set (openedTabs m) - {r}. tab_tabId r' = x \<and> tab_windowId r' = win_windowId v"
    proof
      assume vw: "v = w'"
      with x w'tabs have xv: "x \<in> set (win_tabs v0)" and xt: "x \<noteq> t" by auto
      from inv v0(1) xv obtain r' where r': "r' \<in> set (openedTabs m)" "tab_tabId r' = x"
        "tab_windowId r' = win_windowId v0" unfolding storeInvariant_iff by blast
      with xt rt have "r' \<noteq> r" by auto
      with r' vw w'id v0(2) show ?thesis by auto
    next
      assume vv: "v \<in> set (openedWindows m) \<and> v \<noteq> v0"
      with inv x obtain r' where r': "r' \<in> set (openedTabs m)" "tab_tabId r' = x"
        "tab_windowId r' = win_windowId v" unfolding storeInvariant_iff by blast
      have "r' \<noteq> r"
      proof
        assume "r' = r"
        with r' have "win_windowId v = tab_windowId r" by simp
        with vv wunique show False by blast
      qed
      with r' show ?thesis by auto
    qed
  qed
  have c2: "\<forall>r' \<in> set (openedTabs m) - {r}. \<exists>v \<in> set ws''.
      win_windowId v = tab_windowId r' \<and> tab_tabId r' \<in> set (win_tabs v)"
  proof
    fix r' assume r': "r' \<in> set (openedTabs m) - {r}"
    with runique have nt: "tab_tabId r' \<noteq> t" by auto
    from inv r' obtain v where v: "v \<in> set (openedWindows m)" "win_windowId v = tab_windowId r'"
      "tab_tabId r' \<in> set (win_tabs v)" unfolding storeInvariant_iff by blast
    show "\<exists>v \<in> set ws''. win_windowId v = tab_windowId r' \<and> tab_tabId r' \<in> set (win_tabs v)"
    proof (cases "v = v0")
      case True
      with v nt w'tabs have in': "tab_tabId r' \<in> set (win_tabs w')" by auto
      then have "win_tabs w' \<noteq> []" by auto
      with wset have "w' \<in> set ws''" by simp
      with in' True v w'id v0(2) show ?thesis by (intro bexI [of _ w']) auto
    next
      case False
      with v wset have "v \<in> set ws''" by (auto split: if_splits)
      with v show ?thesis by auto
    qed
  qed
  have c3: "\<forall>v \<in> set ws''. win_tabs v \<noteq> []"
    using inv wset unfolding storeInvariant_iff by (auto split: if_splits)
  have d1: "distinct (map tab_tabId (splice1 i (openedTabs m)))"
    using dt by (simp add: map_splice1 distinct_splice1)
  have d2: "distinct (map win_windowId ws'')"
    using dw ids' by (simp add: ws''_def map_splice1 distinct_splice1)
  from c1 c2 c3 d1 d2 show ?thesis
    by (simp add: res storeWellFormed_def storeInvariant_iff scheduleSave_arrays tabs')
qed


text \<open>
  C5. The invariant does not survive \<open>addOrUpdateTab\<close> on a tracked tab with another
  window. Tab 1 is reported in window 1, and the invariant holds; tab 1 is then
  reported in window 2, as the extension reports a tab that was moved. The tab is now
  tracked in window 2, and window 1 still lists it: \<open>associateTabWithWindow\<close> adds the tab
  to the new window and never takes it out of the old one.
\<close>

theorem moved_tab_breaks_store_invariant:
  "storeInvariant (tabManager (snd (report_result (JStr ''auto-open-1-10'')
       (DObj [(''tabId'', JNum 1), (''windowId'', JNum 1), (''url'', JStr ''a'')])
       (newServer None 10))))
   \<and> \<not> storeInvariant (tabManager (snd (report_result (JStr ''auto-move-1-10'')
       (DObj [(''tabId'', JNum 1), (''windowId'', JNum 2), (''url'', JStr ''a'')])
       (snd (report_result (JStr ''auto-open-1-10'')
          (DObj [(''tabId'', JNum 1), (''windowId'', JNum 1), (''url'', JStr ''a'')])
          (newServer None 10))))))
   \<and> openedTabs (tabManager (snd (report_result (JStr ''auto-move-1-10'')
       (DObj [(''tabId'', JNum 1), (''windowId'', JNum 2), (''url'', JStr ''a'')])
       (snd (report_result (JStr ''auto-open-1-10'')
          (DObj [(''tabId'', JNum 1), (''windowId'', JNum 1), (''url'', JStr ''a'')])
          (newServer None 10)))))) =
       [\<lparr>tab_tabId = JNum 1, tab_windowId = JNum 2, tab_url = JStr ''a'',
         tab_openedAt = 10, tab_lastUpdated = 10\<rparr>]
   \<and> openedWindows (tabManager (snd (report_result (JStr ''auto-move-1-10'')
       (DObj [(''tabId'', JNum 1), (''windowId'', JNum 2), (''url'', JStr ''a'')])
       (snd (report_result (JStr ''auto-open-1-10'')
          (DObj [(''tabId'', JNum 1), (''windowId'', JNum 1), (''url'', JStr ''a'')])
          (newServer None 10)))))) =
       [\<lparr>win_windowId = JNum 1, win_tabs = [JNum 1], win_openedAt = 10\<rparr>,
        \<lparr>win_windowId = JNum 2, win_tabs = [JNum 1], win_openedAt = 10\<rparr>]"
  by (simp add: storeInvariant_def report_result_def newServer_def newTabManager_def
        addOrUpdateTab_def associateTabWithWindow_def scheduleSave_def saveData_def Let_def)

section \<open>Writes of the snapshot are coalesced\<close>

lemma persistence_arrays [simp]:
  "persistence (m\<lparr>openedTabs := ts\<rparr>) = persistence m"
  "persistence (m\<lparr>openedWindows := ws\<rparr>) = persistence m"
  by (simp_all add: persistence_def)

lemma persistence_associate [simp]:
  "persistence (associateTabWithWindow n t w m) = persistence m"
  by (simp add: associateTabWithWindow_def Let_def split: option.splits)

lemma persistence_replaceStep [simp]: "persistence (replaceStep n t m) = persistence m"
  by (simp add: replaceStep_def Let_def split: option.splits)

lemma persistence_replaceLoop [simp]: "persistence (replaceLoop clk i tabs m) = persistence m"
  by (induction tabs arbitrary: i m) simp_all

lemma singleFlight_cong: "persistence m1 = persistence m \<Longrightarrow> singleFlight m1 = singleFlight m"
  by (simp add: persistence_def singleFlight_def)

lemma scheduleSave_cong:
  "persistence m1 = persistence m \<Longrightarrow>
   saveInProgress (scheduleSave m1) = True
   \<and> saveQueued (scheduleSave m1) = (saveQueued m \<or> saveInProgress m)
   \<and> writing (scheduleSave m1) =
       (if saveInProgress m then writing m else writing m @ [(openedTabs m1, openedWindows m1)])
   \<and> dbFile (scheduleSave m1) = dbFile m"
  by (auto simp: persistence_def scheduleSave_def saveData_def)

text \<open>Every mutating call is a change of the arrays followed by \<open>scheduleSave\<close>, or
  (a tab that is not tracked) nothing at all.\<close>

lemma mutation_shape:
  "isMutation c \<Longrightarrow>
   (schedules c m \<longrightarrow> (\<exists>m1. storeStep c m = scheduleSave m1 \<and> persistence m1 = persistence m))
   \<and> (\<not> schedules c m \<longrightarrow> storeStep c m = m)"
proof (cases c)
  case (AddOrUpdateTab clk t w u)
  have "persistence (case findIndex (\<lambda>r. tab_tabId r = t) (openedTabs m) of
                  Some tabIndex \<Rightarrow>
                    m\<lparr>openedTabs := (openedTabs m)[tabIndex :=
                         (openedTabs m ! tabIndex)\<lparr>tab_url := u, tab_windowId := w,
                                                    tab_lastUpdated := clk 0\<rparr>]\<rparr>
                | None \<Rightarrow>
                    m\<lparr>openedTabs := openedTabs m @
                         [\<lparr>tab_tabId = t, tab_windowId = w, tab_url = u,
                           tab_openedAt = clk 0, tab_lastUpdated = clk 0\<rparr>]\<rparr>) = persistence m"
    by (simp split: option.splits)
  with AddOrUpdateTab show ?thesis
    by (auto simp: addOrUpdateTab_def Let_def)
next
  case (RemoveClosedTab t)
  show ?thesis
  proof (cases "findIndex (\<lambda>r. tab_tabId r = t) (openedTabs m)")
    case None
    with RemoveClosedTab show ?thesis by (simp add: removeClosedTab_def)
  next
    case (Some i)
    with RemoveClosedTab show ?thesis
      by (auto simp: removeClosedTab_def Let_def split: option.splits)
  qed
next
  case (ReplaceAllTabs clk tabs)
  then show ?thesis by (auto simp: replaceAllTabs_def)
next
  case (WriteFileDone i err)
  assume "isMutation c"
  with WriteFileDone show ?thesis by simp
qed

lemma mutation_step:
  assumes "isMutation c"
  shows "saveInProgress (storeStep c m) = (saveInProgress m \<or> schedules c m)"
    and "saveQueued (storeStep c m) = (saveQueued m \<or> (saveInProgress m \<and> schedules c m))"
    and "saveInProgress m \<Longrightarrow> writing (storeStep c m) = writing m"
    and "\<not> saveInProgress m \<Longrightarrow> writing (storeStep c m) =
           (if schedules c m
            then writing m @ [(openedTabs (storeStep c m), openedWindows (storeStep c m))]
            else writing m)"
    and "dbFile (storeStep c m) = dbFile m"
proof -
  show "saveInProgress (storeStep c m) = (saveInProgress m \<or> schedules c m)"
    using mutation_shape [OF assms, of m] scheduleSave_cong by (cases "schedules c m") auto
  show "saveQueued (storeStep c m) = (saveQueued m \<or> (saveInProgress m \<and> schedules c m))"
    using mutation_shape [OF assms, of m] scheduleSave_cong by (cases "schedules c m") auto
  show "saveInProgress m \<Longrightarrow> writing (storeStep c m) = writing m"
    using mutation_shape [OF assms, of m] scheduleSave_cong by (cases "schedules c m") auto
  show "dbFile (storeStep c m) = dbFile m"
    using mutation_shape [OF assms, of m] scheduleSave_cong by (cases "schedules c m") auto
  show "\<not> saveInProgress m \<Longrightarrow> writing (storeStep c m) =
           (if schedules c m
            then writing m @ [(openedTabs (storeStep c m), openedWindows (storeStep c m))]
            else writing m)"
  proof (cases "schedules c m")
    case False
    with mutation_shape [OF assms, of m] show ?thesis by simp
  next
    case True
    assume n: "\<not> saveInProgress m"
    from True mutation_shape [OF assms, of m] obtain m1
      where m1: "storeStep c m = scheduleSave m1" "persistence m1 = persistence m" by blast
    have "openedTabs (scheduleSave m1) = openedTabs m1 \<and> openedWindows (scheduleSave m1) = openedWindows m1"
      by (simp add: scheduleSave_def saveData_def)
    with True n m1 scheduleSave_cong [OF m1(2)] show ?thesis by simp
  qed
qed

lemma singleFlight_mutation:
  "isMutation c \<Longrightarrow> singleFlight m \<Longrightarrow> singleFlight (storeStep c m)"
  using mutation_step [of c m]
  by (cases "saveInProgress m") (auto simp: singleFlight_def)

lemma singleFlight_callback: "singleFlight m \<Longrightarrow> singleFlight (writeFileCallback i err m)"
  by (cases "writing m")
     (auto simp: singleFlight_def writeFileCallback_def scheduleSave_def saveData_def splice1_def Let_def)

lemma singleFlight_step: "singleFlight m \<Longrightarrow> singleFlight (storeStep c m)"
proof (cases "isMutation c")
  case True
  assume "singleFlight m"
  with True show ?thesis by (rule singleFlight_mutation)
next
  case False
  assume s: "singleFlight m"
  from False obtain i err where "c = WriteFileDone i err" by (cases c) simp_all
  with s show ?thesis by (simp add: singleFlight_callback)
qed

lemma singleFlight_run: "singleFlight m \<Longrightarrow> singleFlight (storeRun cs m)"
  by (induction cs arbitrary: m) (simp_all add: singleFlight_step)

lemma singleFlight_new: "singleFlight (newTabManager file)"
  by (simp add: singleFlight_def newTabManager_def)

lemma burst_in_flight:
  "list_all isMutation ms \<Longrightarrow> saveInProgress m \<Longrightarrow>
   writing (storeRun ms m) = writing m \<and> saveInProgress (storeRun ms m)
   \<and> saveQueued (storeRun ms m) = (saveQueued m \<or> someScheduled ms m)"
proof (induction ms arbitrary: m)
  case Nil
  then show ?case by simp
next
  case (Cons c ms)
  from Cons.prems have c: "isMutation c" and ms: "list_all isMutation ms" by simp_all
  from mutation_step [OF c, of m] Cons.prems(2)
  have s: "saveInProgress (storeStep c m)" "writing (storeStep c m) = writing m"
    "saveQueued (storeStep c m) = (saveQueued m \<or> schedules c m)" by simp_all
  from Cons.IH [OF ms s(1)] s show ?case by auto
qed

text \<open>
  C9. In every run of a manager from its construction, at most one write is in flight.
  When a write \<open>w\<close> is in flight and mutating calls arrive, one of which at least
  reaches \<open>scheduleSave()\<close>, no write is issued while \<open>w\<close> is in flight; when \<open>w\<close>
  completes, with or without an error, exactly one write is issued, with the arrays as
  they are then, after all the calls; nothing stays queued, and when that write
  completes no write is in flight.
\<close>

theorem single_flight_coalescing:
  assumes "writing (storeRun cs (newTabManager file)) = [w]"
    and "list_all isMutation ms"
    and "someScheduled ms (storeRun cs (newTabManager file))"
  shows "length (writing (storeRun cs' (newTabManager file'))) \<le> 1
   \<and> writing (storeRun ms (storeRun cs (newTabManager file))) = [w]
   \<and> writing (writeFileCallback 0 err (storeRun ms (storeRun cs (newTabManager file)))) =
       [(openedTabs (storeRun ms (storeRun cs (newTabManager file))),
         openedWindows (storeRun ms (storeRun cs (newTabManager file))))]
   \<and> \<not> saveQueued (writeFileCallback 0 err (storeRun ms (storeRun cs (newTabManager file))))
   \<and> writing (writeFileCallback 0 err'
        (writeFileCallback 0 err (storeRun ms (storeRun cs (newTabManager file))))) = []"
proof -
  let ?m = "storeRun cs (newTabManager file)"
  let ?m' = "storeRun ms ?m"
  have a: "length (writing (storeRun cs' (newTabManager file'))) \<le> 1"
    using singleFlight_run [OF singleFlight_new, of cs' file'] by (simp add: singleFlight_def)
  have sf: "singleFlight ?m" by (rule singleFlight_run [OF singleFlight_new])
  with assms(1) have ip: "saveInProgress ?m" by (simp add: singleFlight_def)
  from burst_in_flight [OF assms(2) ip] assms(1,3)
  have b: "writing ?m' = [w]" "saveInProgress ?m'" "saveQueued ?m'" by simp_all
  have c: "writing (writeFileCallback 0 err ?m') = [(openedTabs ?m', openedWindows ?m')]"
    and d: "\<not> saveQueued (writeFileCallback 0 err ?m')"
    using b by (simp_all add: writeFileCallback_def scheduleSave_def saveData_def splice1_def Let_def)
  have e: "writing (writeFileCallback 0 err' (writeFileCallback 0 err ?m')) = []"
    using c d by (simp add: writeFileCallback_def splice1_def Let_def)
  from a b(1) c d e show ?thesis by simp
qed

theorem single_flight_coalescing_witness:
  "writing (storeRun [AddOrUpdateTab (\<lambda>i. 5) (JNum 1) (JNum 1) (JStr ''a'')] (newTabManager None)) =
     [([\<lparr>tab_tabId = JNum 1, tab_windowId = JNum 1, tab_url = JStr ''a'',
          tab_openedAt = 5, tab_lastUpdated = 5\<rparr>],
       [\<lparr>win_windowId = JNum 1, win_tabs = [JNum 1], win_openedAt = 5\<rparr>])]
   \<and> list_all isMutation [AddOrUpdateTab (\<lambda>i. 6) (JNum 2) (JNum 1) (JStr ''b''), RemoveClosedTab (JNum 1)]
   \<and> someScheduled [AddOrUpdateTab (\<lambda>i. 6) (JNum 2) (JNum 1) (JStr ''b''), RemoveClosedTab (JNum 1)]
        (storeRun [AddOrUpdateTab (\<lambda>i. 5) (JNum 1) (JNum 1) (JStr ''a'')] (newTabManager None))
   \<and> writing (writeFileCallback 0 False
        (storeRun [AddOrUpdateTab (\<lambda>i. 6) (JNum 2) (JNum 1) (JStr ''b''), RemoveClosedTab (JNum 1)]
          (storeRun [AddOrUpdateTab (\<lambda>i. 5) (JNum 1) (JNum 1) (JStr ''a'')] (newTabManager None)))) =
     [([\<lparr>tab_tabId = JNum 2, tab_windowId = JNum 1, tab_url = JStr ''b'',
          tab_openedAt = 6, tab_lastUpdated = 6\<rparr>],
       [\<lparr>win_windowId = JNum 1, win_tabs = [JNum 2], win_openedAt = 5\<rparr>])]"
proof -
  have h1: "writing (storeRun [AddOrUpdateTab (\<lambda>i. 5) (JNum 1) (JNum 1) (JStr ''a'')] (newTabManager None)) =
     [([\<lparr>tab_tabId = JNum 1, tab_windowId = JNum 1, tab_url = JStr ''a'',
          tab_openedAt = 5, tab_lastUpdated = 5\<rparr>],
       [\<lparr>win_windowId = JNum 1, win_tabs = [JNum 1], win_openedAt = 5\<rparr>])]"
    by (simp add: newTabManager_def addOrUpdateTab_def associateTabWithWindow_def
          scheduleSave_def saveData_def Let_def)
  have h2: "list_all isMutation [AddOrUpdateTab (\<lambda>i. 6) (JNum 2) (JNum 1) (JStr ''b''), RemoveClosedTab (JNum 1)]"
    by simp
  have h3: "someScheduled [AddOrUpdateTab (\<lambda>i. 6) (JNum 2) (JNum 1) (JStr ''b''), RemoveClosedTab (JNum 1)]
        (storeRun [AddOrUpdateTab (\<lambda>i. 5) (JNum 1) (JNum 1) (JStr ''a'')] (newTabManager None))"
    by simp
  have v: "openedTabs (storeRun [AddOrUpdateTab (\<lambda>i. 6) (JNum 2) (JNum 1) (JStr ''b''), RemoveClosedTab (JNum 1)]
          (storeRun [AddOrUpdateTab (\<lambda>i. 5) (JNum 1) (JNum 1) (JStr ''a'')] (newTabManager None))) =
       [\<lparr>tab_tabId = JNum 2, tab_windowId = JNum 1, tab_url = JStr ''b'',
          tab_openedAt = 6, tab_lastUpdated = 6\<rparr>]
     \<and> openedWindows (storeRun [AddOrUpdateTab (\<lambda>i. 6) (JNum 2) (JNum 1) (JStr ''b''), RemoveClosedTab (JNum 1)]
          (storeRun [AddOrUpdateTab (\<lambda>i. 5) (JNum 1) (JNum 1) (JStr ''a'')] (newTabManager None))) =
       [\<lparr>win_windowId = JNum 1, win_tabs = [JNum 2], win_openedAt = 5\<rparr>]"
    by (simp add: newTabManager_def addOrUpdateTab_def associateTabWithWindow_def
          removeClosedTab_def splice1_def scheduleSave_def saveData_def Let_def)
  from single_flight_coalescing [OF h1 h2 h3, of "[]" None False False] v h1 h2 h3
  show ?thesis by simp
qed

section \<open>One terminal transition for a wait\<close>

lemma settle_frame [simp]:
  "taskQueue (settle p a s) = taskQueue s"
  "tabManager (settle p a s) = tabManager s"
  "pendingTasks (settle p a s) = pendingTasks s"
  "timers (settle p a s) = timers s"
  "nextPromise (settle p a s) = nextPromise s"
  "nextTimer (settle p a s) = nextTimer s"
  "now (settle p a s) = now s"
  by (simp_all add: settle_def split: option.splits)

lemma settle_awaiting [simp]: "awaiting (settle p a s) = (awaiting s)(p := None)"
  by (auto simp: settle_def split: option.splits)

lemma settle_outbox:
  "outbox (settle p a s) =
     (case awaiting s p of None \<Rightarrow> outbox s | Some t \<Rightarrow> outbox s @ [(p, a t)])"
  by (simp add: settle_def split: option.splits)

lemma wellFormed_frame:
  "pendingTasks s' = pendingTasks s \<Longrightarrow> awaiting s' = awaiting s \<Longrightarrow> outbox s' = outbox s \<Longrightarrow>
   nextPromise s' = nextPromise s \<Longrightarrow> nextTimer s' = nextTimer s \<Longrightarrow>
   wellFormed s' = wellFormed s"
  by (simp add: wellFormed_def)

lemma wellFormed_settle: "wellFormed s \<Longrightarrow> wellFormed (settle p a s)"
proof (cases "awaiting s p")
  case None
  assume "wellFormed s"
  with None show ?thesis by (simp add: settle_def)
next
  case (Some t)
  assume w: "wellFormed s"
  from w Some have fresh: "p \<notin> fst ` set (outbox s)" by (force simp: wellFormed_def)
  from w Some fresh show ?thesis
    by (auto simp: wellFormed_def settle_outbox)
qed

lemma wellFormed_delete:
  "wellFormed s \<Longrightarrow> pt = pendingTasks s \<Longrightarrow> wellFormed (s\<lparr>pendingTasks := pt(k := None)\<rparr>)"
  by (auto simp: wellFormed_def)

lemma wellFormed_timers: "wellFormed (s\<lparr>timers := x\<rparr>) = wellFormed s"
  by (simp add: wellFormed_def)

lemma wellFormed_queue: "wellFormed (s\<lparr>taskQueue := x\<rparr>) = wellFormed s"
  by (simp add: wellFormed_def)

lemma wellFormed_tabManager: "wellFormed (s\<lparr>tabManager := x\<rparr>) = wellFormed s"
  by (simp add: wellFormed_def)

lemma wellFormed_now: "wellFormed (s\<lparr>now := x\<rparr>) = wellFormed s"
  by (simp add: wellFormed_def)

lemma wellFormed_awaitTask: "wellFormed s \<Longrightarrow> wellFormed (snd (awaitTask k t s))"
  by (auto simp: wellFormed_def awaitTask_def waitForTaskCompletion_def less_Suc_eq)

lemma wellFormed_timeoutCallback: "wellFormed s \<Longrightarrow> wellFormed (timeoutCallback k s)"
  by (auto simp: timeoutCallback_def rejectPromise_def split: option.splits
           intro!: wellFormed_delete wellFormed_settle)

lemma wellFormed_fireTimer: "wellFormed s \<Longrightarrow> wellFormed (fireTimer tm s)"
  by (auto simp: fireTimer_def wellFormed_timers split: option.splits
           intro!: wellFormed_timeoutCallback)

lemma wellFormed_clearTimeout: "wellFormed (clearTimeout tm s) = wellFormed s"
  by (simp add: clearTimeout_def wellFormed_timers)

lemma wellFormed_report_error: "wellFormed s \<Longrightarrow> wellFormed (snd (report_error k e s))"
  by (auto simp: report_error_def rejectPromise_def clearTimeout_def wellFormed_timers
           split: option.splits intro!: wellFormed_delete wellFormed_settle)

lemma wellFormed_report_result: "wellFormed s \<Longrightarrow> wellFormed (snd (report_result k d s))"
  by (auto simp: report_result_def resolvePromise_def clearTimeout_def wellFormed_timers
             wellFormed_tabManager Let_def
           split: option.splits intro!: wellFormed_delete wellFormed_settle)

lemma wellFormed_add_task: "wellFormed s \<Longrightarrow> wellFormed (snd (add_task a b c d e s))"
  by (auto simp: add_task_def Let_def wellFormed_queue intro!: wellFormed_awaitTask)

lemma wellFormed_switch_tab: "wellFormed s \<Longrightarrow> wellFormed (snd (switch_tab v s))"
  by (auto simp: switch_tab_def Let_def wellFormed_queue split: jsval.splits option.splits
           intro!: wellFormed_awaitTask)

lemma wellFormed_execute_js: "wellFormed s \<Longrightarrow> wellFormed (snd (execute_js v f s))"
  by (auto simp: execute_js_def Let_def wellFormed_queue split: jsval.splits
           intro!: wellFormed_awaitTask)

lemma wellFormed_handleRequest: "wellFormed s \<Longrightarrow> wellFormed (handleRequest r s)"
proof (cases r)
  case (AddTask a b c d e)
  assume "wellFormed s"
  with AddTask show ?thesis by (simp add: wellFormed_add_task)
next
  case GetTask
  assume "wellFormed s"
  with GetTask show ?thesis
    by (simp add: get_task_def getNextTask_def wellFormed_queue)
next
  case (ReportResult k d)
  assume "wellFormed s"
  with ReportResult show ?thesis by (simp add: wellFormed_report_result)
next
  case OpenedTabs
  assume "wellFormed s"
  with OpenedTabs show ?thesis by (simp add: opened_tabs_def)
next
  case (ReportError k e)
  assume "wellFormed s"
  with ReportError show ?thesis by (simp add: wellFormed_report_error)
next
  case (SyncTabs ts)
  assume "wellFormed s"
  with SyncTabs show ?thesis
    by (simp add: sync_tabs_def wellFormed_tabManager split: option.splits)
next
  case (SwitchTab v)
  assume "wellFormed s"
  with SwitchTab show ?thesis by (simp add: wellFormed_switch_tab)
next
  case (ExecuteJs v f)
  assume "wellFormed s"
  with ExecuteJs show ?thesis by (simp add: wellFormed_execute_js)
qed

lemma wellFormed_step: "wellFormed s \<Longrightarrow> wellFormed (step e s)"
  by (cases e)
     (simp_all add: wellFormed_handleRequest wellFormed_fireTimer wellFormed_now wellFormed_tabManager)

lemma wellFormed_run: "wellFormed s \<Longrightarrow> wellFormed (run es s)"
  by (induction es arbitrary: s) (simp_all add: wellFormed_step)

lemma wellFormed_newServer: "wellFormed (newServer file t0)"
  by (simp add: wellFormed_def newServer_def)

lemma timeoutCallback_absent: "pendingTasks s k = None \<Longrightarrow> timeoutCallback k s = s"
  by (simp add: timeoutCallback_def)

text \<open>
  C1. When \<open>pendingTasks\<close> has no entry for the task identifier \<open>k\<close>, the callback of a
  timeout for \<open>k\<close> and the report of an error for \<open>k\<close> leave the server exactly as it
  was, and the report of a result for \<open>k\<close> leaves the entries, the timers, the promises
  awaited and the answers sent as they were: nothing is sent to any submitter (the
  report itself is answered \<open>{success: true}\<close>). After each of the three transitions, in
  any state, there is no entry for \<open>k\<close>. And in every run of the server from its start,
  no request that awaits a promise is answered twice.
\<close>

theorem one_terminal_transition:
  assumes "pendingTasks s k = None"
  shows "timeoutCallback k s = s
   \<and> report_error k errorMsg s = (Resp 200 Success, s)
   \<and> fst (report_result k d s) = Resp 200 Success
   \<and> pendingTasks (snd (report_result k d s)) = pendingTasks s
   \<and> timers (snd (report_result k d s)) = timers s
   \<and> awaiting (snd (report_result k d s)) = awaiting s
   \<and> outbox (snd (report_result k d s)) = outbox s
   \<and> pendingTasks (timeoutCallback k s') k = None
   \<and> pendingTasks (snd (report_error k errorMsg s')) k = None
   \<and> pendingTasks (snd (report_result k d s')) k = None
   \<and> distinct (map fst (outbox (run es (newServer file t0))))"
proof -
  have a: "timeoutCallback k s = s" using assms by (simp add: timeoutCallback_def)
  have b: "report_error k errorMsg s = (Resp 200 Success, s)"
    using assms by (simp add: report_error_def)
  have c: "fst (report_result k d s) = Resp 200 Success
   \<and> pendingTasks (snd (report_result k d s)) = pendingTasks s
   \<and> timers (snd (report_result k d s)) = timers s
   \<and> awaiting (snd (report_result k d s)) = awaiting s
   \<and> outbox (snd (report_result k d s)) = outbox s"
    using assms by (simp add: report_result_def Let_def)
  have d: "pendingTasks (timeoutCallback k s') k = None"
    by (simp add: timeoutCallback_def rejectPromise_def split: option.splits)
  have e: "pendingTasks (snd (report_error k errorMsg s')) k = None"
    by (simp add: report_error_def rejectPromise_def split: option.splits)
  have f: "pendingTasks (snd (report_result k d s')) k = None"
    by (simp add: report_result_def resolvePromise_def Let_def split: option.splits)
  have g: "distinct (map fst (outbox (run es (newServer file t0))))"
    using wellFormed_run [OF wellFormed_newServer, of es "file" t0] by (simp add: wellFormed_def)
  from a b c d e f g show ?thesis by simp
qed

theorem one_terminal_transition_witness:
  "pendingTasks (snd (report_result (JStr ''a'') (DObj [(''closedTabId'', JNum 3)])
      (snd (add_task (JStr ''a'') (JStr ''close-tab'') JUndefined JUndefined (JNum 3)
             (newServer None 0))))) (JStr ''a'') = None
   \<and> outbox (snd (report_result (JStr ''a'') (DObj [(''closedTabId'', JNum 3)])
      (snd (add_task (JStr ''a'') (JStr ''close-tab'') JUndefined JUndefined (JNum 3)
             (newServer None 0))))) =
       [(0, Resp 200 (TaskResult
          \<lparr>taskId = JStr ''a'', command = JStr ''close-tab'', tabId = JNum 3,
            url = JNull, jsFunction = JNull\<rparr>
          (DObj [(''closedTabId'', JNum 3)])))]
   \<and> outbox (snd (report_result (JStr ''a'') (DObj [(''closedTabId'', JNum 3)])
        (snd (report_result (JStr ''a'') (DObj [(''closedTabId'', JNum 3)])
          (snd (add_task (JStr ''a'') (JStr ''close-tab'') JUndefined JUndefined (JNum 3)
             (newServer None 0))))))) =
       [(0, Resp 200 (TaskResult
          \<lparr>taskId = JStr ''a'', command = JStr ''close-tab'', tabId = JNum 3,
            url = JNull, jsFunction = JNull\<rparr>
          (DObj [(''closedTabId'', JNum 3)])))]
   \<and> outbox (snd (report_error (JStr ''a'') (JStr ''No tab'')
        (snd (report_result (JStr ''a'') (DObj [(''closedTabId'', JNum 3)])
          (snd (add_task (JStr ''a'') (JStr ''close-tab'') JUndefined JUndefined (JNum 3)
             (newServer None 0))))))) =
       [(0, Resp 200 (TaskResult
          \<lparr>taskId = JStr ''a'', command = JStr ''close-tab'', tabId = JNum 3,
            url = JNull, jsFunction = JNull\<rparr>
          (DObj [(''closedTabId'', JNum 3)])))]
   \<and> outbox (timeoutCallback (JStr ''a'')
        (snd (report_result (JStr ''a'') (DObj [(''closedTabId'', JNum 3)])
          (snd (add_task (JStr ''a'') (JStr ''close-tab'') JUndefined JUndefined (JNum 3)
             (newServer None 0)))))) =
       [(0, Resp 200 (TaskResult
          \<lparr>taskId = JStr ''a'', command = JStr ''close-tab'', tabId = JNum 3,
            url = JNull, jsFunction = JNull\<rparr>
          (DObj [(''closedTabId'', JNum 3)])))]"
proof -
  let ?s = "snd (report_result (JStr ''a'') (DObj [(''closedTabId'', JNum 3)])
      (snd (add_task (JStr ''a'') (JStr ''close-tab'') JUndefined JUndefined (JNum 3)
             (newServer None 0))))"
  have h: "pendingTasks ?s (JStr ''a'') = None"
    by (simp add: report_result_def add_task_def validCommands_def js_or_def addTask_def
          awaitTask_def waitForTaskCompletion_def newServer_def newTabManager_def
          removeClosedTab_def resolvePromise_def settle_def clearTimeout_def Let_def)
  have o: "outbox ?s = [(0, Resp 200 (TaskResult
          \<lparr>taskId = JStr ''a'', command = JStr ''close-tab'', tabId = JNum 3,
            url = JNull, jsFunction = JNull\<rparr>
          (DObj [(''closedTabId'', JNum 3)])))]"
    by (simp add: report_result_def add_task_def validCommands_def js_or_def addTask_def
          awaitTask_def waitForTaskCompletion_def newServer_def newTabManager_def
          removeClosedTab_def resolvePromise_def settle_def clearTimeout_def Let_def)
  from one_terminal_transition [OF h, of "JStr ''No tab''" "DObj [(''closedTabId'', JNum 3)]"] h o
  show ?thesis by simp
qed

section \<open>A wait that receives no report\<close>

lemma waiting_frame:
  "pendingTasks s' = pendingTasks s \<Longrightarrow> awaiting s' = awaiting s \<Longrightarrow> timers s' = timers s \<Longrightarrow>
   nextPromise s' = nextPromise s \<Longrightarrow> nextTimer s' = nextTimer s \<Longrightarrow>
   waiting k p tm due s' = waiting k p tm due s"
  by (simp add: waiting_def)

lemma waiting_awaitTask:
  "waiting k p tm due s \<Longrightarrow> k' \<noteq> k \<Longrightarrow> waiting k p tm due (snd (awaitTask k' t s))"
  by (auto simp: waiting_def awaitTask_def waitForTaskCompletion_def)

lemma waiting_timeoutCallback:
  "waiting k p tm due s \<Longrightarrow> k' \<noteq> k \<Longrightarrow> waiting k p tm due (timeoutCallback k' s)"
  by (auto simp: waiting_def timeoutCallback_def rejectPromise_def split: option.splits)

lemma waiting_fireTimer:
  "waiting k p tm due s \<Longrightarrow> tm' \<noteq> tm \<Longrightarrow> waiting k p tm due (fireTimer tm' s)"
proof (cases "timers s tm'")
  case None
  assume "waiting k p tm due s"
  with None show ?thesis by (simp add: fireTimer_def)
next
  case (Some kd)
  assume w: "waiting k p tm due s" and n: "tm' \<noteq> tm"
  obtain k' d where kd: "kd = (k', d)" by (cases kd)
  from w n Some kd have k': "k' \<noteq> k" by (auto simp: waiting_def)
  from w n have "waiting k p tm due (s\<lparr>timers := (timers s)(tm' := None)\<rparr>)"
    by (auto simp: waiting_def)
  from waiting_timeoutCallback [OF this k'] Some kd w show ?thesis
    by (simp add: fireTimer_def)
qed

lemma waiting_report_error:
  "waiting k p tm due s \<Longrightarrow> k' \<noteq> k \<Longrightarrow> waiting k p tm due (snd (report_error k' e s))"
  by (auto simp: waiting_def report_error_def rejectPromise_def clearTimeout_def
           split: option.splits)

lemma waiting_report_result:
  "waiting k p tm due s \<Longrightarrow> k' \<noteq> k \<Longrightarrow> waiting k p tm due (snd (report_result k' d s))"
  by (auto simp: waiting_def report_result_def resolvePromise_def clearTimeout_def Let_def
           split: option.splits)

lemma registers_shape:
  "(registers r s = Some k' \<longrightarrow>
      (\<exists>t. handleRequest r s = snd (awaitTask k' t (s\<lparr>taskQueue := addTask t (taskQueue s)\<rparr>))))
   \<and> (registers r s = None \<longrightarrow> (\<forall>k d. r \<noteq> ReportResult k d) \<longrightarrow> (\<forall>k e. r \<noteq> ReportError k e) \<longrightarrow>
        pendingTasks (handleRequest r s) = pendingTasks s
        \<and> awaiting (handleRequest r s) = awaiting s
        \<and> timers (handleRequest r s) = timers s
        \<and> outbox (handleRequest r s) = outbox s
        \<and> nextPromise (handleRequest r s) = nextPromise s
        \<and> nextTimer (handleRequest r s) = nextTimer s
        \<and> now (handleRequest r s) = now s)"
proof (cases r)
  case (AddTask a b c d e)
  then show ?thesis by (auto simp: add_task_def Let_def)
next
  case GetTask
  then show ?thesis by (simp add: get_task_def getNextTask_def)
next
  case (ReportResult k d)
  then show ?thesis by simp
next
  case OpenedTabs
  then show ?thesis by (simp add: opened_tabs_def)
next
  case (ReportError k e)
  then show ?thesis by simp
next
  case (SyncTabs ts)
  then show ?thesis by (simp add: sync_tabs_def split: option.splits)
next
  case (SwitchTab v)
  then show ?thesis by (auto simp: switch_tab_def Let_def split: jsval.splits option.splits)
next
  case (ExecuteJs v f)
  then show ?thesis by (auto simp: execute_js_def Let_def split: jsval.splits)
qed

lemma waiting_handleRequest:
  assumes w: "waiting k p tm due s" and n: "\<not> disturbs k tm (Request r) s"
  shows "waiting k p tm due (handleRequest r s)"
proof (cases "(\<exists>k' d. r = ReportResult k' d) \<or> (\<exists>k' e. r = ReportError k' e)")
  case True
  with w n show ?thesis by (auto simp: waiting_report_result waiting_report_error)
next
  case False
  then have nr: "\<forall>k d. r \<noteq> ReportResult k d" "\<forall>k e. r \<noteq> ReportError k e" by auto
  from False n have nk: "registers r s \<noteq> Some k" by (cases r) auto
  show ?thesis
  proof (cases "registers r s")
    case None
    with registers_shape [of r s k] nr
    have fr: "pendingTasks (handleRequest r s) = pendingTasks s"
      "awaiting (handleRequest r s) = awaiting s"
      "timers (handleRequest r s) = timers s"
      "nextPromise (handleRequest r s) = nextPromise s"
      "nextTimer (handleRequest r s) = nextTimer s"
      by simp_all
    from waiting_frame [OF fr] w show ?thesis by simp
  next
    case (Some k')
    with nk have k': "k' \<noteq> k" by simp
    from Some registers_shape [of r s k'] obtain t
      where t: "handleRequest r s = snd (awaitTask k' t (s\<lparr>taskQueue := addTask t (taskQueue s)\<rparr>))"
      by auto
    from w have "waiting k p tm due (s\<lparr>taskQueue := addTask t (taskQueue s)\<rparr>)"
      by (simp add: waiting_def)
    from waiting_awaitTask [OF this k'] t show ?thesis by simp
  qed
qed

lemma waiting_step:
  "waiting k p tm due s \<Longrightarrow> \<not> disturbs k tm e s \<Longrightarrow> waiting k p tm due (step e s)"
proof (cases e)
  case (Request r)
  assume "waiting k p tm due s" "\<not> disturbs k tm e s"
  with Request show ?thesis by (simp add: waiting_handleRequest)
next
  case (TimerFires tm')
  assume "waiting k p tm due s" "\<not> disturbs k tm e s"
  with TimerFires show ?thesis by (simp add: waiting_fireTimer)
next
  case (Elapse d)
  assume "waiting k p tm due s"
  with Elapse show ?thesis by (simp add: waiting_def)
next
  case (WriteFileCompletes i err)
  assume "waiting k p tm due s"
  with WriteFileCompletes show ?thesis by (simp add: waiting_def)
qed

lemma waiting_run:
  "waiting k p tm due s \<Longrightarrow> undisturbed k tm es s \<Longrightarrow> waiting k p tm due (run es s)"
  by (induction es arbitrary: s) (simp_all add: waiting_step)

lemma waiting_registered:
  assumes wf: "wellFormed s" and r: "registers r s = Some k"
    and fresh: "\<forall>tm d. timers s tm \<noteq> Some (k, d)"
  shows "waiting k (nextPromise s) (nextTimer s) (now s + 30000) (step (Request r) s)"
proof -
  from r registers_shape [of r s k] obtain t
    where t: "handleRequest r s = snd (awaitTask k t (s\<lparr>taskQueue := addTask t (taskQueue s)\<rparr>))"
    by auto
  from wf have "\<forall>k' e. pendingTasks s k' = Some e \<longrightarrow>
      resolver e \<noteq> nextPromise s \<and> timeout e \<noteq> nextTimer s"
    by (fastforce simp: wellFormed_def)
  with fresh t show ?thesis
    by (auto simp: waiting_def awaitTask_def waitForTaskCompletion_def)
qed

lemma waiting_fires:
  assumes w: "waiting k p tm due s" and wf: "wellFormed s"
  shows "if now s < due then fireTimer tm s = s
         else outbox (fireTimer tm s) = outbox s @ [(p, Resp 500 (Failure ''Task timed out.''))]
              \<and> pendingTasks (fireTimer tm s) k = None
              \<and> awaiting (fireTimer tm s) p = None
              \<and> timers (fireTimer tm s) tm = None"
  using w
  by (auto simp: waiting_def fireTimer_def timeoutCallback_def rejectPromise_def settle_outbox)

text \<open>
  What holds when the identifier is not shared. In a run of the server from its start,
  let a request register a wait under \<open>k\<close> with the default delay, at a moment when no
  armed timer has captured \<open>k\<close>, and let the events that follow contain no report of a
  result or of an error for \<open>k\<close> and no other registration under \<open>k\<close>. Then, for as long
  as its timer has not fired, the wait is registered, its request is not answered and
  its timer is armed, due 30000 after the registration. The timer does not fire before
  that; when it fires at or after it, the request is answered with status 500 and
  \<open>Task timed out.\<close>, and immediately afterwards there is no entry for \<open>k\<close>.
\<close>

lemma unshared_wait_times_out:
  assumes "s = run es0 (newServer file t0)"
    and "registers r s = Some k"
    and "\<forall>tm d. timers s tm \<noteq> Some (k, d)"
    and "undisturbed k (nextTimer s) es (step (Request r) s)"
    and "s2 = run es (step (Request r) s)"
  shows "pendingTasks s2 k = Some \<lparr>resolver = nextPromise s, timeout = nextTimer s\<rparr>
    \<and> awaiting s2 (nextPromise s) \<noteq> None
    \<and> nextPromise s \<notin> fst ` set (outbox s2)
    \<and> timers s2 (nextTimer s) = Some (k, now s + 30000)
    \<and> (if now s2 < now s + 30000 then fireTimer (nextTimer s) s2 = s2
       else outbox (fireTimer (nextTimer s) s2) =
              outbox s2 @ [(nextPromise s, Resp 500 (Failure ''Task timed out.''))]
            \<and> pendingTasks (fireTimer (nextTimer s) s2) k = None
            \<and> awaiting (fireTimer (nextTimer s) s2) (nextPromise s) = None
            \<and> timers (fireTimer (nextTimer s) s2) (nextTimer s) = None)"
proof -
  have wf: "wellFormed s" using assms(1) by (simp add: wellFormed_run wellFormed_newServer)
  have wf2: "wellFormed s2"
    using assms(5) wf by (simp add: wellFormed_run wellFormed_step del: step.simps)
  have w: "waiting k (nextPromise s) (nextTimer s) (now s + 30000) s2"
    using waiting_run [OF waiting_registered [OF wf assms(2,3)] assms(4)] assms(5) by simp
  from w wf2 have na: "nextPromise s \<notin> fst ` set (outbox s2)"
    by (force simp: waiting_def wellFormed_def)
  from w na waiting_fires [OF w wf2] show ?thesis by (simp add: waiting_def)
qed

lemma unshared_wait_times_out_example:
  "registers (AddTask (JStr ''a'') (JStr ''open-tab'') (JStr ''https://x'') JUndefined JUndefined)
      (run [] (newServer None 0)) = Some (JStr ''a'')
   \<and> (\<forall>tm d. timers (run [] (newServer None 0)) tm \<noteq> Some (JStr ''a'', d))
   \<and> undisturbed (JStr ''a'') 0 [Request GetTask, Elapse 30000]
        (step (Request (AddTask (JStr ''a'') (JStr ''open-tab'') (JStr ''https://x'') JUndefined JUndefined))
           (run [] (newServer None 0)))
   \<and> now (run [Request GetTask, Elapse 30000]
        (step (Request (AddTask (JStr ''a'') (JStr ''open-tab'') (JStr ''https://x'') JUndefined JUndefined))
           (run [] (newServer None 0)))) = 30000
   \<and> outbox (fireTimer 0 (run [Request GetTask, Elapse 30000]
        (step (Request (AddTask (JStr ''a'') (JStr ''open-tab'') (JStr ''https://x'') JUndefined JUndefined))
           (run [] (newServer None 0))))) = [(0, Resp 500 (Failure ''Task timed out.''))]
   \<and> pendingTasks (fireTimer 0 (run [Request GetTask, Elapse 30000]
        (step (Request (AddTask (JStr ''a'') (JStr ''open-tab'') (JStr ''https://x'') JUndefined JUndefined))
           (run [] (newServer None 0))))) (JStr ''a'') = None"
proof -
  let ?r = "AddTask (JStr ''a'') (JStr ''open-tab'') (JStr ''https://x'') JUndefined JUndefined"
  let ?s = "run [] (newServer None 0)"
  let ?es = "[Request GetTask, Elapse 30000]"
  let ?s2 = "run ?es (step (Request ?r) ?s)"
  have h1: "registers ?r ?s = Some (JStr ''a'')"
    by (simp add: validCommands_def js_or_def)
  have h2: "\<forall>tm d. timers ?s tm \<noteq> Some (JStr ''a'', d)"
    by (simp add: newServer_def)
  have h3: "undisturbed (JStr ''a'') (nextTimer ?s) ?es (step (Request ?r) ?s)"
    by (simp add: newServer_def)
  have n: "nextTimer ?s = 0" "nextPromise ?s = 0" "now ?s = 0" by (simp_all add: newServer_def)
  have t: "now ?s2 = 30000"
    by (simp add: add_task_def validCommands_def js_or_def addTask_def awaitTask_def
          waitForTaskCompletion_def newServer_def get_task_def getNextTask_def Let_def)
  have o: "outbox ?s2 = []"
    by (simp add: add_task_def validCommands_def js_or_def addTask_def awaitTask_def
          waitForTaskCompletion_def newServer_def get_task_def getNextTask_def Let_def)
  from unshared_wait_times_out [OF refl h1 h2 h3 refl] n t o h1 h2 h3
  show ?thesis by simp
qed

text \<open>
  C2. The server does not give every wait that receives no report its timeout. Two
  requests of \<open>/add-task\<close> without a \<open>taskId\<close> arrive in the same millisecond, at time 0:
  both are given the identifier \<open>task-0\<close>, which \<open>Date.now()\<close> alone decides. The second
  \<open>pendingTasks.set\<close> replaces the entry of the first wait, and with it the \<open>reject\<close> of
  the first promise. No report ever arrives. At time 30000 the timer of the first wait
  rejects the second wait and deletes the entry; the timer of the second wait finds no
  entry. At time 60000 no timer is armed and no entry is left, one answer has been sent,
  to the second request, and the first request is still awaiting its promise: it is
  never rejected.
\<close>

theorem generated_identifier_collision:
  "registers (AddTask JUndefined (JStr ''open-tab'') (JStr ''https://x'') JUndefined JUndefined)
      (newServer None 0) = Some (JStr ''task-0'')
   \<and> registers (AddTask JUndefined (JStr ''open-tab'') (JStr ''https://y'') JUndefined JUndefined)
      (run [Request (AddTask JUndefined (JStr ''open-tab'') (JStr ''https://x'') JUndefined JUndefined)]
         (newServer None 0)) = Some (JStr ''task-0'')
   \<and> now (run [Request (AddTask JUndefined (JStr ''open-tab'') (JStr ''https://x'') JUndefined JUndefined),
             Request (AddTask JUndefined (JStr ''open-tab'') (JStr ''https://y'') JUndefined JUndefined),
             Elapse 30000, TimerFires 0, TimerFires 1, Elapse 30000] (newServer None 0)) = 60000
   \<and> outbox (run [Request (AddTask JUndefined (JStr ''open-tab'') (JStr ''https://x'') JUndefined JUndefined),
             Request (AddTask JUndefined (JStr ''open-tab'') (JStr ''https://y'') JUndefined JUndefined),
             Elapse 30000, TimerFires 0, TimerFires 1, Elapse 30000] (newServer None 0)) =
       [(1, Resp 500 (Failure ''Task timed out.''))]
   \<and> awaiting (run [Request (AddTask JUndefined (JStr ''open-tab'') (JStr ''https://x'') JUndefined JUndefined),
             Request (AddTask JUndefined (JStr ''open-tab'') (JStr ''https://y'') JUndefined JUndefined),
             Elapse 30000, TimerFires 0, TimerFires 1, Elapse 30000] (newServer None 0)) 0 =
       Some \<lparr>taskId = JStr ''task-0'', command = JStr ''open-tab'', tabId = JNull,
             url = JStr ''https://x'', jsFunction = JNull\<rparr>
   \<and> timers (run [Request (AddTask JUndefined (JStr ''open-tab'') (JStr ''https://x'') JUndefined JUndefined),
             Request (AddTask JUndefined (JStr ''open-tab'') (JStr ''https://y'') JUndefined JUndefined),
             Elapse 30000, TimerFires 0, TimerFires 1, Elapse 30000] (newServer None 0)) = Map.empty
   \<and> pendingTasks (run [Request (AddTask JUndefined (JStr ''open-tab'') (JStr ''https://x'') JUndefined JUndefined),
             Request (AddTask JUndefined (JStr ''open-tab'') (JStr ''https://y'') JUndefined JUndefined),
             Elapse 30000, TimerFires 0, TimerFires 1, Elapse 30000] (newServer None 0)) = Map.empty"
  by (simp add: add_task_def validCommands_def js_or_def addTask_def
        awaitTask_def waitForTaskCompletion_def newServer_def newTabManager_def
        fireTimer_def timeoutCallback_def rejectPromise_def settle_def Let_def
        dec.simps digit_def)

text \<open>The same with two requests of \<open>/execute-js\<close> for one tab in one millisecond.\<close>

lemma generated_identifier_collision_execute_js:
  "registers (ExecuteJs (JNum 7) (JStr ''return 1'')) (newServer None 0) = Some (JStr ''execute-js-7-0'')
   \<and> registers (ExecuteJs (JNum 7) (JStr ''return 2''))
      (run [Request (ExecuteJs (JNum 7) (JStr ''return 1''))] (newServer None 0)) =
       Some (JStr ''execute-js-7-0'')
   \<and> outbox (run [Request (ExecuteJs (JNum 7) (JStr ''return 1'')),
             Request (ExecuteJs (JNum 7) (JStr ''return 2'')),
             Elapse 30000, TimerFires 0, TimerFires 1] (newServer None 0)) =
       [(1, Resp 500 (Failure ''Task timed out.''))]
   \<and> awaiting (run [Request (ExecuteJs (JNum 7) (JStr ''return 1'')),
             Request (ExecuteJs (JNum 7) (JStr ''return 2'')),
             Elapse 30000, TimerFires 0, TimerFires 1] (newServer None 0)) 0 =
       Some \<lparr>taskId = JStr ''execute-js-7-0'', command = JStr ''execute-js'', tabId = JNum 7,
             url = JUndefined, jsFunction = JStr ''return 1''\<rparr>
   \<and> pendingTasks (run [Request (ExecuteJs (JNum 7) (JStr ''return 1'')),
             Request (ExecuteJs (JNum 7) (JStr ''return 2'')),
             Elapse 30000, TimerFires 0, TimerFires 1] (newServer None 0)) = Map.empty"
  by (simp add: execute_js_def addTask_def
        awaitTask_def waitForTaskCompletion_def newServer_def newTabManager_def
        fireTimer_def timeoutCallback_def rejectPromise_def settle_def Let_def
        dec.simps digit_def)

end
